theory Spec2Isabelle
  imports Main "HOL-Library.Word"
begin

unbundle bit_operations_syntax

section \<open>The buffer object of d3dgl (bufferobject.cpp)\<close>

text \<open>
  A shallow embedding of \<open>D3DGLBufferObject\<close>: the host-side state of one vertex or index
  buffer, the staging memory it shares with the commands it has queued, and the command
  queue through which every OpenGL call is made on the device's own thread.

  The model is sequential. The producer thread runs the methods of the buffer object; the
  consumer thread (the queue's owner) runs only where the producer waits for it: inside
  \<open>sendSync\<close> and inside the \<open>while(mUpdateInProgress) Sleep(1)\<close> loops, one command at
  a time and in queue order. A consumer step can also be taken between two calls
  (\<open>consumer_step\<close>).
\<close>

subsection \<open>Machine types and the constants of d3d9types.h\<close>

type_synonym UINT = "32 word"
type_synonym DWORD = "32 word"
type_synonym ULONG = "32 word"
type_synonym GLuint = "32 word"
type_synonym GLubyte = "8 word"

datatype D3DPOOL = D3DPOOL_DEFAULT | D3DPOOL_MANAGED | D3DPOOL_SYSTEMMEM | D3DPOOL_SCRATCH

datatype D3DFORMAT = D3DFMT_UNKNOWN | D3DFMT_VERTEXDATA | D3DFMT_INDEX16 | D3DFMT_INDEX32

datatype HRESULT = D3D_OK | D3DERR_INVALIDCALL

datatype LockType = LT_Unlocked | LT_ReadOnly | LT_Full

text \<open>
  The flag constants are those of the Direct3D 9 header d3d9types.h, which is not among
  the sources; \<open>UINT\<close>, \<open>DWORD\<close>, \<open>ULONG\<close> and \<open>GLuint\<close> are unsigned 32-bit
  integers on the Windows targets of the code.
\<close>

named_theorems d3d_consts \<open>values of the Direct3D 9 header constants\<close>

definition D3DUSAGE_WRITEONLY :: DWORD where [d3d_consts]: "D3DUSAGE_WRITEONLY = 0x8"
definition D3DUSAGE_DYNAMIC :: DWORD where [d3d_consts]: "D3DUSAGE_DYNAMIC = 0x200"

definition D3DLOCK_READONLY :: DWORD where [d3d_consts]: "D3DLOCK_READONLY = 0x10"
definition D3DLOCK_NOSYSLOCK :: DWORD where [d3d_consts]: "D3DLOCK_NOSYSLOCK = 0x800"
definition D3DLOCK_NOOVERWRITE :: DWORD where [d3d_consts]: "D3DLOCK_NOOVERWRITE = 0x1000"
definition D3DLOCK_DISCARD :: DWORD where [d3d_consts]: "D3DLOCK_DISCARD = 0x2000"

definition D3DFVF_XYZ :: DWORD where [d3d_consts]: "D3DFVF_XYZ = 0x002"
definition D3DFVF_XYZRHW :: DWORD where [d3d_consts]: "D3DFVF_XYZRHW = 0x004"
definition D3DFVF_XYZW :: DWORD where [d3d_consts]: "D3DFVF_XYZW = 0x4002"
definition D3DFVF_NORMAL :: DWORD where [d3d_consts]: "D3DFVF_NORMAL = 0x010"
definition D3DFVF_DIFFUSE :: DWORD where [d3d_consts]: "D3DFVF_DIFFUSE = 0x040"
definition D3DFVF_SPECULAR :: DWORD where [d3d_consts]: "D3DFVF_SPECULAR = 0x080"
definition D3DFVF_TEXCOUNT_MASK :: DWORD where [d3d_consts]: "D3DFVF_TEXCOUNT_MASK = 0xf00"
definition D3DFVF_TEXCOUNT_SHIFT :: nat where [d3d_consts]: "D3DFVF_TEXCOUNT_SHIFT = 8"
definition D3DFVF_TEXTUREFORMAT1 :: DWORD where [d3d_consts]: "D3DFVF_TEXTUREFORMAT1 = 3"
definition D3DFVF_TEXTUREFORMAT2 :: DWORD where [d3d_consts]: "D3DFVF_TEXTUREFORMAT2 = 0"
definition D3DFVF_TEXTUREFORMAT3 :: DWORD where [d3d_consts]: "D3DFVF_TEXTUREFORMAT3 = 1"
definition D3DFVF_TEXTUREFORMAT4 :: DWORD where [d3d_consts]: "D3DFVF_TEXTUREFORMAT4 = 2"

subsection \<open>The object, the staging memory and the commands\<close>

text \<open>
  A block of staging memory is a list of bytes, \<open>None\<close> where the byte has not been
  written since the block was allocated. The heap is the list of all blocks ever
  allocated, a block's address being its index. \<open>std::shared_ptr<GLubyte>\<close> is
  \<open>None\<close> when empty and \<open>Some a\<close> when it holds block \<open>a\<close>. A block is kept alive by
  the holders of such a pointer: the object's \<open>mBufData\<close> and the queued commands.
\<close>

type_synonym block = "GLubyte option list"
type_synonym shared_ptr = "nat option"

text \<open>
  The fields of the class (its declaration, bufferobject.hpp, is outside the sources:
  the integer fields are taken with the types of the values assigned to them, the
  in-flight counter as an unsigned 32-bit atomic like the reference counts).
  The reference counts and the parent pointer are left out: no method modelled here
  reads them.
\<close>

record D3DGLBufferObject =
  mLength :: UINT
  mUsage :: DWORD
  mFormat :: D3DFORMAT
  mFvf :: DWORD
  mPool :: D3DPOOL
  mBufferId :: GLuint
  mBufData :: shared_ptr
  mLock :: LockType
  mLockedOffset :: UINT
  mLockedLength :: UINT
  mUpdateInProgress :: ULONG

text \<open>The four command classes; \<open>mTarget\<close> is always the one object of the model.\<close>

datatype Command =
    InitBufferObjectCmd shared_ptr
  | DestroyBufferCmd GLuint
  | ResizeBufferCmd
  | LoadBufferDataCmd UINT UINT shared_ptr

text \<open>
  The world: the object, the heap, the queue of the parent device and the one piece of
  OpenGL state the object reads back, the last buffer name \<open>glGenBuffers\<close> handed out.
  \<open>pending\<close> holds the commands submitted and not yet executed, oldest first;
  \<open>sent\<close> is the history of every submission.
\<close>

record world =
  obj :: D3DGLBufferObject
  heap :: "block list"
  pending :: "Command list"
  sent :: "Command list"
  glLastName :: GLuint

subsection \<open>Execution of the commands on the consumer thread\<close>

text \<open>
  \<open>initGL\<close>: \<open>glGenBuffers\<close> yields a new name, stored in \<open>mBufferId\<close>; the buffer
  contents handed to OpenGL are not part of the model. The counter is reset to zero.
\<close>

definition initGL :: "shared_ptr \<Rightarrow> world \<Rightarrow> world" where
  "initGL data w =
     (let name = glLastName w + 1
      in w\<lparr>obj := (obj w)\<lparr>mBufferId := name, mUpdateInProgress := 0\<rparr>, glLastName := name\<rparr>)"

definition resizeBufferGL :: "world \<Rightarrow> world" where
  "resizeBufferGL w = w"

definition loadBufferDataGL :: "UINT \<Rightarrow> UINT \<Rightarrow> shared_ptr \<Rightarrow> world \<Rightarrow> world" where
  "loadBufferDataGL offset len data w =
     w\<lparr>obj := (obj w)\<lparr>mUpdateInProgress := mUpdateInProgress (obj w) - 1\<rparr>\<rparr>"

fun execute :: "Command \<Rightarrow> world \<Rightarrow> world" where
  "execute (InitBufferObjectCmd data) w = initGL data w"
| "execute (DestroyBufferCmd buffer) w = w"
| "execute ResizeBufferCmd w = resizeBufferGL w"
| "execute (LoadBufferDataCmd offset len data) w = loadBufferDataGL offset len data w"

subsection \<open>The command queue\<close>

text \<open>
  The command queue of the parent device (\<open>mParent->getQueue()\<close>) is declared outside
  the sources; its operations are modelled from the spec, each below. The spec's queue is
  first-in first-out and has one consumer; the model has one producer, so the queue's
  guard has no effect on it.
\<close>

text \<open>
  Modelled from the spec: \<open>send\<close> (the spec's \<open>submitAsync\<close>), missing from the
  sources. It enqueues the command and returns at once.
\<close>

definition send :: "Command \<Rightarrow> world \<Rightarrow> world" where
  "send c w = w\<lparr>pending := pending w @ [c], sent := sent w @ [c]\<rparr>"

text \<open>
  Modelled from the spec: one turn of the consumer's drain loop, missing from the
  sources. The owning thread takes the oldest pending command and executes it.
\<close>

definition consumer_step :: "world \<Rightarrow> world" where
  "consumer_step w =
     (case pending w of [] \<Rightarrow> w | c # cs \<Rightarrow> execute c (w\<lparr>pending := cs\<rparr>))"

text \<open>
  Modelled from the spec: the consumer's drain loop run until the queue is empty,
  missing from the sources.
\<close>

definition drain :: "world \<Rightarrow> world" where
  "drain w = fold execute (pending w) (w\<lparr>pending := []\<rparr>)"

text \<open>
  Modelled from the spec: \<open>sendSync\<close> (the spec's \<open>submitSync\<close>), missing from the
  sources. It enqueues the command and returns when the consumer has executed it, hence
  every older command too.
\<close>

definition sendSync :: "Command \<Rightarrow> world \<Rightarrow> world" where
  "sendSync c w = drain (send c w)"

text \<open>
  Modelled from the spec: \<open>lock\<close>, missing from the sources. It takes the guard of the
  queue.
\<close>

definition queue_lock :: "world \<Rightarrow> world" where
  "queue_lock w = w"

text \<open>
  Modelled from the spec: \<open>doSend\<close> (the spec's \<open>submitLocked\<close>), missing from the
  sources. It enqueues the command with the guard held.
\<close>

definition doSend :: "Command \<Rightarrow> world \<Rightarrow> world" where
  "doSend c w = send c w"

text \<open>
  Modelled from the spec: \<open>sendAndUnlock\<close> (the spec's \<open>unlockAndSubmit\<close>), missing
  from the sources. It enqueues the command and releases the guard.
\<close>

definition sendAndUnlock :: "Command \<Rightarrow> world \<Rightarrow> world" where
  "sendAndUnlock c w = send c w"

text \<open>
  \<open>while(mUpdateInProgress) Sleep(1);\<close> The producer sleeps while the consumer executes
  the queue. Only queued commands lower the counter, so with the counter non-zero and the
  queue empty the loop never ends: that is the value \<open>None\<close>.
\<close>

function wait_update :: "world \<Rightarrow> world option" where
  "wait_update w =
     (if mUpdateInProgress (obj w) = 0 then Some w
      else if pending w = [] then None
      else wait_update (consumer_step w))"
  by pat_completeness auto
termination
proof (relation "measure (\<lambda>w. length (pending w))")
  show "wf (measure (\<lambda>w. length (pending w)))"
    by simp
next
  fix w :: world
  assume "pending w \<noteq> []"
  then obtain c cs where q: "pending w = c # cs"
    by (cases "pending w") auto
  have "pending (execute c (w\<lparr>pending := cs\<rparr>)) = cs"
    by (cases c) (simp_all add: initGL_def resizeBufferGL_def loadBufferDataGL_def Let_def)
  with q show "(consumer_step w, w) \<in> measure (\<lambda>w. length (pending w))"
    by (simp add: consumer_step_def)
qed

declare wait_update.simps [simp del]

subsection \<open>Staging memory\<close>

text \<open>
  Modelled from the spec: \<open>DataAllocator\<close>, missing from the sources (and with it
  \<open>DataDeallocator\<close>, which runs when the last shared pointer to a block goes). The
  allocator returns a new block of the requested number of bytes, none of them written.
\<close>

definition DataAllocator :: "UINT \<Rightarrow> world \<Rightarrow> nat \<times> world" where
  "DataAllocator n w = (length (heap w), w\<lparr>heap := heap w @ [replicate (unat n) None]\<rparr>)"

text \<open>
  \<open>memset(p, 0, n)\<close> and \<open>memcpy(p, src, n)\<close> at the start of a block. Writing through
  a null pointer, past the end of the block or reading past the end of the source is a
  memory fault, the value \<open>None\<close>; with \<open>n = 0\<close> nothing is accessed.
\<close>

definition store_bytes :: "shared_ptr \<Rightarrow> GLubyte list \<Rightarrow> block list \<Rightarrow> block list option" where
  "store_bytes p bs h =
     (if bs = [] then Some h
      else case p of
        None \<Rightarrow> None
      | Some a \<Rightarrow>
          if a < length h \<and> length bs \<le> length (h ! a)
          then Some (h[a := map Some bs @ drop (length bs) (h ! a)])
          else None)"

definition memset_zero :: "shared_ptr \<Rightarrow> nat \<Rightarrow> block list \<Rightarrow> block list option" where
  "memset_zero p n h = store_bytes p (replicate n 0) h"

definition memcpy :: "shared_ptr \<Rightarrow> GLubyte list \<Rightarrow> nat \<Rightarrow> block list \<Rightarrow> block list option" where
  "memcpy p src n h = (if n \<le> length src then store_bytes p (take n src) h else None)"

text \<open>The size in bytes of the block behind the object's staging pointer.\<close>

definition capacity :: "world \<Rightarrow> nat" where
  "capacity w =
     (case mBufData (obj w) of
        None \<Rightarrow> 0
      | Some a \<Rightarrow> if a < length (heap w) then length (heap w ! a) else 0)"

text \<open>\<open>(n+15) & ~15\<close> on 32-bit unsigned integers.\<close>

definition align16 :: "UINT \<Rightarrow> UINT" where
  "align16 n = (n + 15) AND NOT 15"

subsection \<open>Construction\<close>

definition D3DGLBufferObject_ctor :: D3DGLBufferObject where
  "D3DGLBufferObject_ctor =
     \<lparr>mLength = 0, mUsage = 0, mFormat = D3DFMT_UNKNOWN, mFvf = 0, mPool = D3DPOOL_DEFAULT,
      mBufferId = 0, mBufData = None, mLock = LT_Unlocked, mLockedOffset = 0,
      mLockedLength = 0, mUpdateInProgress = 0\<rparr>"

text \<open>A newly constructed object on a device whose queue is empty.\<close>

definition new_world :: world where
  "new_world = \<lparr>obj = D3DGLBufferObject_ctor, heap = [], pending = [], sent = [],
                 glLastName = 0\<rparr>"

text \<open>
  \<open>init_common\<close> returns its \<open>bool\<close> and the world it leaves (\<open>None\<close> would be a
  memory fault in \<open>memset\<close>). The three fields are assigned before the pool and the
  usage are checked.
\<close>

definition init_common :: "UINT \<Rightarrow> DWORD \<Rightarrow> D3DPOOL \<Rightarrow> world \<Rightarrow> (bool \<times> world) option" where
  "init_common len usage pool w =
     (let w1 = w\<lparr>obj := (obj w)\<lparr>mLength := len, mUsage := usage, mPool := pool\<rparr>\<rparr>
      in if mPool (obj w1) = D3DPOOL_SCRATCH then Some (False, w1)
         else if mPool (obj w1) = D3DPOOL_MANAGED \<and> mUsage (obj w1) AND D3DUSAGE_DYNAMIC \<noteq> 0
         then Some (False, w1)
         else
           let data_len = align16 (mLength (obj w1));
               (a, w2) = DataAllocator data_len w1;
               w3 = w2\<lparr>obj := (obj w2)\<lparr>mBufData := Some a\<rparr>\<rparr>
           in case memset_zero (mBufData (obj w3)) (unat data_len) (heap w3) of
                None \<Rightarrow> None
              | Some h \<Rightarrow>
                  let w4 = w3\<lparr>heap := h\<rparr>;
                      w5 = w4\<lparr>obj := (obj w4)\<lparr>mUpdateInProgress := 1\<rparr>\<rparr>
                  in Some (True, sendSync (InitBufferObjectCmd (mBufData (obj w5))) w5))"

text \<open>
  \<open>init_vbo\<close>. The loop over the texture coordinate sets shifts the 32-bit \<open>fvf\<close> by
  \<open>16 + t*2\<close>, which for \<open>t \<ge> 8\<close> is a shift by the width or more: C++ leaves its
  result undefined. The parameter \<open>ub\<close> stands for whatever the target yields there.
\<close>

definition shift_right :: "(DWORD \<Rightarrow> nat \<Rightarrow> DWORD) \<Rightarrow> DWORD \<Rightarrow> nat \<Rightarrow> DWORD" where
  "shift_right ub x n = (if n < 32 then drop_bit n x else ub x n)"

definition texcoord_num :: "(DWORD \<Rightarrow> nat \<Rightarrow> DWORD) \<Rightarrow> DWORD \<Rightarrow> nat \<Rightarrow> nat" where
  "texcoord_num ub fvf t =
     (let sel = shift_right ub fvf (16 + t * 2) AND 0x03
      in if sel = D3DFVF_TEXTUREFORMAT1 then 1
         else if sel = D3DFVF_TEXTUREFORMAT2 then 2
         else if sel = D3DFVF_TEXTUREFORMAT3 then 3
         else if sel = D3DFVF_TEXTUREFORMAT4 then 4
         else 0)"

definition texcoord_count :: "DWORD \<Rightarrow> nat" where
  "texcoord_count fvf = unat (drop_bit D3DFVF_TEXCOUNT_SHIFT (fvf AND D3DFVF_TEXCOUNT_MASK))"

definition fvf_size :: "(DWORD \<Rightarrow> nat \<Rightarrow> DWORD) \<Rightarrow> DWORD \<Rightarrow> UINT" where
  "fvf_size ub fvf =
     (let size0 = (0 :: UINT);
          size1 = (if fvf AND D3DFVF_XYZRHW = D3DFVF_XYZRHW then size0 + 4 * 4
                   else if fvf AND D3DFVF_XYZW = D3DFVF_XYZW then size0 + 4 * 4
                   else if fvf AND D3DFVF_XYZ = D3DFVF_XYZ then size0 + 4 * 3
                   else size0);
          size2 = (if fvf AND D3DFVF_NORMAL \<noteq> 0 then size1 + 4 * 3 else size1);
          size3 = (if fvf AND D3DFVF_DIFFUSE \<noteq> 0 then size2 + 1 * 4 else size2);
          size4 = (if fvf AND D3DFVF_SPECULAR \<noteq> 0 then size3 + 1 * 4 else size3)
      in fold (\<lambda>t size. size + 4 * of_nat (texcoord_num ub fvf t))
              [0 ..< texcoord_count fvf] size4)"

definition init_vbo ::
  "(DWORD \<Rightarrow> nat \<Rightarrow> DWORD) \<Rightarrow> UINT \<Rightarrow> DWORD \<Rightarrow> DWORD \<Rightarrow> D3DPOOL \<Rightarrow> world \<Rightarrow> (bool \<times> world) option" where
  "init_vbo ub len usage fvf pool w =
     (let size = fvf_size ub fvf
      in if len < size then Some (False, w)
         else init_common len usage pool
                (w\<lparr>obj := (obj w)\<lparr>mFormat := D3DFMT_VERTEXDATA, mFvf := fvf\<rparr>\<rparr>))"

subsection \<open>Rewriting the whole buffer\<close>

text \<open>
  \<open>resetBufferData(data, length)\<close>: \<open>data\<close> is the caller's block of bytes. \<open>None\<close> is a
  memory fault in \<open>memcpy\<close>.
\<close>

definition resetBufferData :: "GLubyte list \<Rightarrow> GLuint \<Rightarrow> world \<Rightarrow> world option" where
  "resetBufferData data len w =
     (let w1 = w\<lparr>obj := (obj w)\<lparr>mUpdateInProgress := mUpdateInProgress (obj w) + 1\<rparr>\<rparr>;
          w2 = queue_lock w1;
          w3 = (if len > mLength (obj w2) \<or> mUpdateInProgress (obj w2) > 1
                then let data_len = align16 len;
                         (a, w') = DataAllocator data_len w2
                     in doSend ResizeBufferCmd (w'\<lparr>obj := (obj w')\<lparr>mBufData := Some a\<rparr>\<rparr>)
                else w2);
          w4 = w3\<lparr>obj := (obj w3)\<lparr>mLength := len\<rparr>\<rparr>
      in case memcpy (mBufData (obj w4)) data (unat (mLength (obj w4))) (heap w4) of
           None \<Rightarrow> None
         | Some h \<Rightarrow>
             Some (sendAndUnlock
                     (LoadBufferDataCmd 0 (mLength (obj w4)) (mBufData (obj w4)))
                     (w4\<lparr>heap := h\<rparr>)))"

subsection \<open>Lock and Unlock\<close>

text \<open>
  \<open>std::atomic::compare_exchange_strong(expected, desired)\<close> on the value \<open>cur\<close>: whether
  it succeeded, the atomic's new value and the new value of \<open>expected\<close>.
\<close>

definition compare_exchange_strong ::
  "LockType \<Rightarrow> LockType \<Rightarrow> LockType \<Rightarrow> bool \<times> LockType \<times> LockType" where
  "compare_exchange_strong cur expected desired =
     (if cur = expected then (True, desired, expected) else (False, cur, cur))"

text \<open>
  A raw pointer into the staging memory: the block (\<open>None\<close> for a null base) and the byte
  offset into it.
\<close>

type_synonym pointer = "shared_ptr \<times> nat"

text \<open>
  \<open>Lock\<close> returns its \<open>HRESULT\<close>, the pointer stored in \<open>*data\<close> (\<open>None\<close> when nothing is
  stored) and the world it leaves. The whole result is \<open>None\<close> when the wait for the
  in-flight updates never ends. The unhandled-flags check only logs.
\<close>

definition Lock ::
  "UINT \<Rightarrow> UINT \<Rightarrow> DWORD \<Rightarrow> world \<Rightarrow> (HRESULT \<times> pointer option \<times> world) option" where
  "Lock offset length0 flags w =
     (if length0 = 0 \<and> offset > 0 then Some (D3DERR_INVALIDCALL, None, w)
      else
        let len = (if length0 = 0 then mLength (obj w) else length0)
        in if offset \<ge> mLength (obj w) \<or> len > mLength (obj w) - offset
           then Some (D3DERR_INVALIDCALL, None, w)
           else if flags AND D3DLOCK_READONLY \<noteq> 0 \<and> mUsage (obj w) AND D3DUSAGE_WRITEONLY \<noteq> 0
           then Some (D3DERR_INVALIDCALL, None, w)
           else
             let lt = (if flags AND D3DLOCK_READONLY \<noteq> 0 then LT_ReadOnly else LT_Full);
                 nolock = LT_Unlocked;
                 (ok, lk, nolock') = compare_exchange_strong (mLock (obj w)) nolock lt
             in if \<not> ok then Some (D3DERR_INVALIDCALL, None, w)
                else
                  let w1 = w\<lparr>obj := (obj w)\<lparr>mLock := lk\<rparr>\<rparr>;
                      r = (if flags AND D3DLOCK_DISCARD \<noteq> 0
                           then if mUpdateInProgress (obj w1) > 0
                                then let data_len = align16 (mLength (obj w1));
                                         (a, w') = DataAllocator data_len w1
                                     in Some (w'\<lparr>obj := (obj w')\<lparr>mBufData := Some a\<rparr>\<rparr>)
                                else Some w1
                           else if flags AND D3DLOCK_NOOVERWRITE = 0 \<and> flags AND D3DLOCK_READONLY = 0
                           then wait_update w1
                           else Some w1)
                  in case r of
                       None \<Rightarrow> None
                     | Some w2 \<Rightarrow>
                         let w3 = w2\<lparr>obj := (obj w2)\<lparr>mLockedOffset := offset, mLockedLength := len\<rparr>\<rparr>
                         in Some (D3D_OK,
                                  Some (mBufData (obj w3), unat (mLockedOffset (obj w3))),
                                  w3))"

definition Unlock :: "world \<Rightarrow> HRESULT \<times> world" where
  "Unlock w =
     (if mLock (obj w) = LT_Unlocked then (D3DERR_INVALIDCALL, w)
      else
        let w1 = (if mLock (obj w) \<noteq> LT_ReadOnly
                  then let w' = w\<lparr>obj := (obj w)\<lparr>mUpdateInProgress := mUpdateInProgress (obj w) + 1\<rparr>\<rparr>
                       in send (LoadBufferDataCmd (mLockedOffset (obj w')) (mLockedLength (obj w'))
                                  (mBufData (obj w'))) w'
                  else w)
        in (D3D_OK, w1\<lparr>obj := (obj w1)\<lparr>mLockedOffset := 0, mLockedLength := 0,
                                        mLock := LT_Unlocked\<rparr>\<rparr>))"

text \<open>
  Reading through a pointer returned by \<open>Lock\<close>: the \<open>n\<close> bytes at the pointer, \<open>None\<close>
  when the pointer is null or the range leaves the block.
\<close>

definition read_bytes :: "world \<Rightarrow> pointer \<Rightarrow> nat \<Rightarrow> block option" where
  "read_bytes w p n =
     (case fst p of
        None \<Rightarrow> None
      | Some a \<Rightarrow>
          if a < length (heap w) \<and> snd p + n \<le> length (heap w ! a)
          then Some (take n (drop (snd p) (heap w ! a)))
          else None)"

subsection \<open>Destruction\<close>

text \<open>
  The destructor's body, and then the destruction of the members, where the object gives
  up its shared pointer to the staging block. \<open>None\<close>: the wait never ends.
\<close>

definition dtor_body :: "world \<Rightarrow> world option" where
  "dtor_body w =
     (let w1 = (if mBufferId (obj w) \<noteq> 0 then send (DestroyBufferCmd (mBufferId (obj w))) w
                else w)
      in case wait_update w1 of
           None \<Rightarrow> None
         | Some w2 \<Rightarrow> Some (w2\<lparr>obj := (obj w2)\<lparr>mBufferId := 0\<rparr>\<rparr>))"

definition dtor_members :: "world \<Rightarrow> world" where
  "dtor_members w = w\<lparr>obj := (obj w)\<lparr>mBufData := None\<rparr>\<rparr>"

definition D3DGLBufferObject_dtor :: "world \<Rightarrow> world option" where
  "D3DGLBufferObject_dtor w = map_option dtor_members (dtor_body w)"

subsection \<open>Sequences of calls\<close>

text \<open>\<open>Lock\<close> followed at once by \<open>Unlock\<close>: the two results and the final world.\<close>

definition lock_unlock ::
  "UINT \<Rightarrow> UINT \<Rightarrow> DWORD \<Rightarrow> world \<Rightarrow> (HRESULT \<times> HRESULT \<times> world) option" where
  "lock_unlock offset len flags w =
     (case Lock offset len flags w of
        None \<Rightarrow> None
      | Some (hr, d, w1) \<Rightarrow> (case Unlock w1 of (hr', w2) \<Rightarrow> Some (hr, hr', w2)))"

text \<open>
  \<open>resetBufferData\<close> followed by a \<open>Lock\<close>: the result of the lock, and the bytes read
  through the pointer it returned, over the range it locked.
\<close>

definition reset_then_read ::
  "GLubyte list \<Rightarrow> GLuint \<Rightarrow> UINT \<Rightarrow> UINT \<Rightarrow> DWORD \<Rightarrow> world
     \<Rightarrow> (HRESULT \<times> block option) option" where
  "reset_then_read data len offset n flags w =
     (case resetBufferData data len w of
        None \<Rightarrow> None
      | Some w' \<Rightarrow>
          (case Lock offset n flags w' of
             None \<Rightarrow> None
           | Some (hr, d, w'') \<Rightarrow>
               Some (hr, case d of
                           None \<Rightarrow> None
                         | Some p \<Rightarrow> read_bytes w'' p (unat (mLockedLength (obj w''))))))"

text \<open>
  A client's call, or a step of the consumer thread between two calls, and the world a
  sequence of them leaves. A call that does not return (a wait that never ends, a memory
  fault) leaves none.
\<close>

datatype call =
    Call_init_common UINT DWORD D3DPOOL
  | Call_Lock UINT UINT DWORD
  | Call_Unlock
  | Call_resetBufferData "GLubyte list" GLuint
  | Consumer_step

fun do_call :: "call \<Rightarrow> world \<Rightarrow> world option" where
  "do_call (Call_init_common len usage pool) w = map_option snd (init_common len usage pool w)"
| "do_call (Call_Lock offset len flags) w = map_option (snd \<circ> snd) (Lock offset len flags w)"
| "do_call Call_Unlock w = Some (snd (Unlock w))"
| "do_call (Call_resetBufferData data len) w = resetBufferData data len w"
| "do_call Consumer_step w = Some (consumer_step w)"

fun run :: "call list \<Rightarrow> world \<Rightarrow> world option" where
  "run [] w = Some w"
| "run (c # cs) w = (case do_call c w of None \<Rightarrow> None | Some w' \<Rightarrow> run cs w')"

text \<open>The calls of \<open>init_common\<close> whose pool and usage pass its two checks.\<close>

fun pool_usage_ok :: "call \<Rightarrow> bool" where
  "pool_usage_ok (Call_init_common len usage pool) =
     (pool \<noteq> D3DPOOL_SCRATCH \<and> \<not> (pool = D3DPOOL_MANAGED \<and> usage AND D3DUSAGE_DYNAMIC \<noteq> 0))"
| "pool_usage_ok c = True"

text \<open>
  The calls whose length is at most \<open>0xFFFFFFF0\<close> and, for \<open>resetBufferData\<close>, whose
  block of bytes is at least as long as the length says.
\<close>

fun length_ok :: "call \<Rightarrow> bool" where
  "length_ok (Call_init_common len usage pool) = (unat len \<le> 0xFFFFFFF0)"
| "length_ok (Call_resetBufferData data len) = (unat len \<le> 0xFFFFFFF0 \<and> unat len \<le> length data)"
| "length_ok c = True"

subsection \<open>Predicates on worlds\<close>

text \<open>
  The 16-byte-aligned rounding of a length, in the spec's words and on natural numbers:
  the least multiple of 16 that is not below it.
\<close>

definition round16 :: "nat \<Rightarrow> nat" where
  "round16 n = (n + 15) div 16 * 16"

text \<open>The staging block is at least as large as the rounding of the logical length.\<close>

definition staging_ok :: "world \<Rightarrow> bool" where
  "staging_ok w = (round16 (unat (mLength (obj w))) \<le> capacity w)"

text \<open>The staging pointer is null or the address of an allocated block.\<close>

definition staging_ptr_ok :: "world \<Rightarrow> bool" where
  "staging_ptr_ok w = (case mBufData (obj w) of None \<Rightarrow> True | Some a \<Rightarrow> a < length (heap w))"

text \<open>
  What the calls keep true of the staging memory when every length is at most
  \<open>0xFFFFFFF0\<close>, the largest whose rounding fits 32 bits.
\<close>

definition staging_inv :: "world \<Rightarrow> bool" where
  "staging_inv w = (unat (mLength (obj w)) \<le> 0xFFFFFFF0 \<and> staging_ok w)"

text \<open>
  The in-flight counter agrees with the queue: it counts the upload commands still
  pending, and no initialise command is pending (\<open>init_common\<close> sends it synchronously).
\<close>

fun is_upload :: "Command \<Rightarrow> bool" where
  "is_upload (LoadBufferDataCmd offset len data) = True"
| "is_upload c = False"

fun is_init :: "Command \<Rightarrow> bool" where
  "is_init (InitBufferObjectCmd data) = True"
| "is_init c = False"

definition inflight_ok :: "world \<Rightarrow> bool" where
  "inflight_ok w =
     (mUpdateInProgress (obj w) = of_nat (length (filter is_upload (pending w)))
      \<and> \<not> list_ex is_init (pending w))"

text \<open>The requests that pass every check of \<open>Lock\<close>, the compare-and-swap included.\<close>

definition lock_request_ok :: "UINT \<Rightarrow> UINT \<Rightarrow> DWORD \<Rightarrow> world \<Rightarrow> bool" where
  "lock_request_ok offset len flags w =
     (\<not> (len = 0 \<and> offset > 0)
      \<and> offset < mLength (obj w)
      \<and> len \<le> mLength (obj w) - offset
      \<and> \<not> (flags AND D3DLOCK_READONLY \<noteq> 0 \<and> mUsage (obj w) AND D3DUSAGE_WRITEONLY \<noteq> 0)
      \<and> mLock (obj w) = LT_Unlocked)"

subsection \<open>Example worlds\<close>

text \<open>A 20-byte buffer as \<open>init_common 20 0 D3DPOOL_DEFAULT\<close> leaves it.\<close>

definition buffer20 :: world where
  "buffer20 =
     \<lparr>obj = \<lparr>mLength = 20, mUsage = 0, mFormat = D3DFMT_UNKNOWN, mFvf = 0,
             mPool = D3DPOOL_DEFAULT, mBufferId = 1, mBufData = Some 0, mLock = LT_Unlocked,
             mLockedOffset = 0, mLockedLength = 0, mUpdateInProgress = 0\<rparr>,
      heap = [replicate 32 (Some 0)], pending = [], sent = [InitBufferObjectCmd (Some 0)],
      glLastName = 1\<rparr>"

text \<open>The same buffer with bytes 4 to 11 locked for writing.\<close>

definition buffer20_locked :: world where
  "buffer20_locked =
     buffer20\<lparr>obj := (obj buffer20)\<lparr>mLock := LT_Full, mLockedOffset := 4, mLockedLength := 8\<rparr>\<rparr>"

text \<open>The same buffer after that lock has been released: one upload is in flight.\<close>

definition buffer20_busy :: world where
  "buffer20_busy =
     buffer20\<lparr>obj := (obj buffer20)\<lparr>mUpdateInProgress := 1\<rparr>,
              pending := [LoadBufferDataCmd 4 8 (Some 0)],
              sent := [InitBufferObjectCmd (Some 0), LoadBufferDataCmd 4 8 (Some 0)]\<rparr>"

text \<open>A buffer of length zero as \<open>init_common 0 0 D3DPOOL_DEFAULT\<close> leaves it.\<close>

definition buffer0 :: world where
  "buffer0 =
     \<lparr>obj = \<lparr>mLength = 0, mUsage = 0, mFormat = D3DFMT_UNKNOWN, mFvf = 0,
             mPool = D3DPOOL_DEFAULT, mBufferId = 1, mBufData = Some 0, mLock = LT_Unlocked,
             mLockedOffset = 0, mLockedLength = 0, mUpdateInProgress = 0\<rparr>,
      heap = [ [] ], pending = [], sent = [InitBufferObjectCmd (Some 0)], glLastName = 1\<rparr>"

text \<open>A 20-byte buffer created with write-only usage.\<close>

definition buffer20_writeonly :: world where
  "buffer20_writeonly = buffer20\<lparr>obj := (obj buffer20)\<lparr>mUsage := D3DUSAGE_WRITEONLY\<rparr>\<rparr>"

text \<open>Forty bytes of new content, the numbers 1 to 40.\<close>

definition content40 :: "GLubyte list" where
  "content40 = map of_nat [1 ..< 41]"

section \<open>Properties\<close>

subsection \<open>The example worlds are worlds the code produces\<close>

lemma buffer20_init: "init_common 20 0 D3DPOOL_DEFAULT new_world = Some (True, buffer20)"
  by (simp add: init_common_def new_world_def D3DGLBufferObject_ctor_def align16_def
      DataAllocator_def memset_zero_def store_bytes_def sendSync_def send_def drain_def
      initGL_def buffer20_def Let_def)

subsection \<open>What the consumer thread changes\<close>

lemma execute_frame:
  "heap (execute c w) = heap w" "sent (execute c w) = sent w" "pending (execute c w) = pending w"
  "mLength (obj (execute c w)) = mLength (obj w)"
  "mUsage (obj (execute c w)) = mUsage (obj w)"
  "mFormat (obj (execute c w)) = mFormat (obj w)"
  "mFvf (obj (execute c w)) = mFvf (obj w)"
  "mPool (obj (execute c w)) = mPool (obj w)"
  "mBufData (obj (execute c w)) = mBufData (obj w)"
  "mLock (obj (execute c w)) = mLock (obj w)"
  "mLockedOffset (obj (execute c w)) = mLockedOffset (obj w)"
  "mLockedLength (obj (execute c w)) = mLockedLength (obj w)"
  by (cases c; simp add: initGL_def resizeBufferGL_def loadBufferDataGL_def Let_def)+

lemma consumer_step_frame:
  "heap (consumer_step w) = heap w" "sent (consumer_step w) = sent w"
  "pending (consumer_step w) = tl (pending w)"
  "mLength (obj (consumer_step w)) = mLength (obj w)"
  "mUsage (obj (consumer_step w)) = mUsage (obj w)"
  "mFormat (obj (consumer_step w)) = mFormat (obj w)"
  "mFvf (obj (consumer_step w)) = mFvf (obj w)"
  "mPool (obj (consumer_step w)) = mPool (obj w)"
  "mBufData (obj (consumer_step w)) = mBufData (obj w)"
  "mLock (obj (consumer_step w)) = mLock (obj w)"
  "mLockedOffset (obj (consumer_step w)) = mLockedOffset (obj w)"
  "mLockedLength (obj (consumer_step w)) = mLockedLength (obj w)"
  by (simp_all add: consumer_step_def execute_frame split: list.split)

lemma wait_update_zero: "mUpdateInProgress (obj w) = 0 \<Longrightarrow> wait_update w = Some w"
  by (subst wait_update.simps) simp

lemma wait_update_empty:
  "mUpdateInProgress (obj w) \<noteq> 0 \<Longrightarrow> pending w = [] \<Longrightarrow> wait_update w = None"
  by (subst wait_update.simps) simp

lemma wait_update_step:
  "mUpdateInProgress (obj w) \<noteq> 0 \<Longrightarrow> pending w \<noteq> [] \<Longrightarrow>
     wait_update w = wait_update (consumer_step w)"
  by (subst wait_update.simps) simp

lemma wait_update_frame:
  "wait_update w = Some w' \<Longrightarrow>
     mUpdateInProgress (obj w') = 0 \<and> heap w' = heap w \<and> sent w' = sent w
     \<and> pending w' = drop (length (pending w) - length (pending w')) (pending w)
     \<and> length (pending w') \<le> length (pending w)
     \<and> mLength (obj w') = mLength (obj w) \<and> mUsage (obj w') = mUsage (obj w)
     \<and> mFormat (obj w') = mFormat (obj w) \<and> mFvf (obj w') = mFvf (obj w)
     \<and> mPool (obj w') = mPool (obj w) \<and> mBufData (obj w') = mBufData (obj w)
     \<and> mLock (obj w') = mLock (obj w) \<and> mLockedOffset (obj w') = mLockedOffset (obj w)
     \<and> mLockedLength (obj w') = mLockedLength (obj w)"
proof (induction w rule: wait_update.induct)
  case (1 w)
  show ?case
  proof (cases "mUpdateInProgress (obj w) = 0")
    case True
    with "1.prems" show ?thesis by (simp add: wait_update_zero)
  next
    case False
    have ne: "pending w \<noteq> []"
      using "1.prems" False by (auto simp: wait_update_empty)
    have rec: "wait_update (consumer_step w) = Some w'"
      using "1.prems" False ne by (simp add: wait_update_step)
    from "1.IH"[OF False ne rec] have ih:
      "mUpdateInProgress (obj w') = 0" "heap w' = heap w" "sent w' = sent w"
      "pending w' = drop (length (tl (pending w)) - length (pending w')) (tl (pending w))"
      "length (pending w') \<le> length (tl (pending w))"
      "mLength (obj w') = mLength (obj w)" "mUsage (obj w') = mUsage (obj w)"
      "mFormat (obj w') = mFormat (obj w)" "mFvf (obj w') = mFvf (obj w)"
      "mPool (obj w') = mPool (obj w)" "mBufData (obj w') = mBufData (obj w)"
      "mLock (obj w') = mLock (obj w)" "mLockedOffset (obj w') = mLockedOffset (obj w)"
      "mLockedLength (obj w') = mLockedLength (obj w)"
      by (simp_all add: consumer_step_frame)
    from ne obtain c cs where q: "pending w = c # cs" by (cases "pending w") auto
    have "pending w' = drop (length (pending w) - length (pending w')) (pending w)"
      using ih(4,5) q by (simp add: Suc_diff_le)
    moreover have "length (pending w') \<le> length (pending w)"
      using ih(5) q by simp
    ultimately show ?thesis using ih by simp
  qed
qed

lemma inflight_ok_consumer_step:
  assumes "inflight_ok w"
  shows "inflight_ok (consumer_step w)"
proof (cases "pending w")
  case Nil
  with assms show ?thesis by (simp add: consumer_step_def)
next
  case (Cons c cs)
  with assms show ?thesis
    by (cases c) (simp_all add: consumer_step_def inflight_ok_def initGL_def resizeBufferGL_def
        loadBufferDataGL_def)
qed

lemma wait_update_returns:
  "inflight_ok w \<Longrightarrow> \<exists>w'. wait_update w = Some w' \<and> inflight_ok w'"
proof (induction w rule: wait_update.induct)
  case (1 w)
  show ?case
  proof (cases "mUpdateInProgress (obj w) = 0")
    case True
    with "1.prems" show ?thesis by (simp add: wait_update_zero)
  next
    case False
    with "1.prems" have ne: "pending w \<noteq> []"
      by (auto simp: inflight_ok_def)
    from "1.IH"[OF False ne inflight_ok_consumer_step[OF "1.prems"]] False ne
    show ?thesis by (simp add: wait_update_step)
  qed
qed

subsection \<open>The cases of Lock\<close>

lemma Lock_rejected:
  "\<not> lock_request_ok offset len flags w \<Longrightarrow>
     Lock offset len flags w = Some (D3DERR_INVALIDCALL, None, w)"
  by (auto simp: Lock_def lock_request_ok_def compare_exchange_strong_def Let_def not_le not_less)

lemma Lock_nowait:
  assumes "lock_request_ok offset len flags w"
    and "flags AND D3DLOCK_DISCARD = 0 \<and> (flags AND D3DLOCK_NOOVERWRITE \<noteq> 0 \<or> flags AND D3DLOCK_READONLY \<noteq> 0)
         \<or> flags AND D3DLOCK_DISCARD \<noteq> 0 \<and> mUpdateInProgress (obj w) = 0"
  shows "Lock offset len flags w =
     Some (D3D_OK, Some (mBufData (obj w), unat offset),
           w\<lparr>obj := (obj w)\<lparr>mLock := (if flags AND D3DLOCK_READONLY \<noteq> 0 then LT_ReadOnly else LT_Full),
                             mLockedOffset := offset,
                             mLockedLength := (if len = 0 then mLength (obj w) else len)\<rparr>\<rparr>)"
  using assms
  by (auto simp: Lock_def lock_request_ok_def compare_exchange_strong_def Let_def not_le not_less)

lemma Lock_discard_busy:
  assumes "lock_request_ok offset len flags w"
    and "flags AND D3DLOCK_DISCARD \<noteq> 0" and "mUpdateInProgress (obj w) \<noteq> 0"
  shows "Lock offset len flags w =
     Some (D3D_OK, Some (Some (length (heap w)), unat offset),
           w\<lparr>obj := (obj w)\<lparr>mLock := (if flags AND D3DLOCK_READONLY \<noteq> 0 then LT_ReadOnly else LT_Full),
                             mBufData := Some (length (heap w)),
                             mLockedOffset := offset,
                             mLockedLength := (if len = 0 then mLength (obj w) else len)\<rparr>,
             heap := heap w @ [replicate (unat (align16 (mLength (obj w)))) None]\<rparr>)"
  using assms
  by (auto simp: Lock_def lock_request_ok_def compare_exchange_strong_def Let_def not_le not_less
      DataAllocator_def word_gt_0)

lemma Lock_wait:
  assumes "lock_request_ok offset len flags w"
    and "flags AND D3DLOCK_DISCARD = 0" and "flags AND D3DLOCK_NOOVERWRITE = 0"
    and "flags AND D3DLOCK_READONLY = 0"
  shows "Lock offset len flags w =
     (case wait_update (w\<lparr>obj := (obj w)\<lparr>mLock := LT_Full\<rparr>\<rparr>) of
        None \<Rightarrow> None
      | Some w2 \<Rightarrow>
          Some (D3D_OK, Some (mBufData (obj w2), unat offset),
                w2\<lparr>obj := (obj w2)\<lparr>mLockedOffset := offset,
                                    mLockedLength := (if len = 0 then mLength (obj w) else len)\<rparr>\<rparr>))"
  using assms
  by (auto simp: Lock_def lock_request_ok_def compare_exchange_strong_def Let_def not_le not_less
      split: option.splits)

lemma Unlock_unlocked: "mLock (obj w) = LT_Unlocked \<Longrightarrow> Unlock w = (D3DERR_INVALIDCALL, w)"
  by (simp add: Unlock_def)

lemma Unlock_readonly:
  "mLock (obj w) = LT_ReadOnly \<Longrightarrow>
     Unlock w = (D3D_OK, w\<lparr>obj := (obj w)\<lparr>mLockedOffset := 0, mLockedLength := 0, mLock := LT_Unlocked\<rparr>\<rparr>)"
  by (simp add: Unlock_def)

lemma Unlock_full:
  "mLock (obj w) = LT_Full \<Longrightarrow>
     Unlock w =
       (D3D_OK,
        w\<lparr>obj := (obj w)\<lparr>mUpdateInProgress := mUpdateInProgress (obj w) + 1,
                          mLockedOffset := 0, mLockedLength := 0, mLock := LT_Unlocked\<rparr>,
          pending := pending w @ [LoadBufferDataCmd (mLockedOffset (obj w)) (mLockedLength (obj w)) (mBufData (obj w))],
          sent := sent w @ [LoadBufferDataCmd (mLockedOffset (obj w)) (mLockedLength (obj w)) (mBufData (obj w))]\<rparr>)"
  by (simp add: Unlock_def send_def Let_def)

lemma lock_range_nat:
  fixes offset len m :: UINT
  assumes "offset < m"
  shows "(len \<le> m - offset) = (unat offset + unat len \<le> unat m)"
proof -
  have "offset \<le> m" using assms by simp
  then have "unat (m - offset) = unat m - unat offset"
    by (rule unat_sub)
  moreover have "unat offset < unat m"
    using assms by (simp add: word_less_nat_alt)
  ultimately show ?thesis
    by (auto simp: word_le_nat_alt)
qed

lemma lock_request_okI:
  assumes "mLock (obj w) = LT_Unlocked" and "len \<noteq> 0"
    and "unat offset + unat len \<le> unat (mLength (obj w))"
    and "\<not> (flags AND D3DLOCK_READONLY \<noteq> 0 \<and> mUsage (obj w) AND D3DUSAGE_WRITEONLY \<noteq> 0)"
  shows "lock_request_ok offset len flags w"
proof -
  have "unat len \<noteq> 0" using assms(2) by (simp add: unat_eq_0)
  with assms(3) have lt: "offset < mLength (obj w)"
    by (simp add: word_less_nat_alt)
  with assms show ?thesis
    by (simp add: lock_request_ok_def lock_range_nat)
qed

lemma lock_request_ok_whole:
  assumes "mLock (obj w) = LT_Unlocked" and "mLength (obj w) \<noteq> 0"
    and "\<not> (flags AND D3DLOCK_READONLY \<noteq> 0 \<and> mUsage (obj w) AND D3DUSAGE_WRITEONLY \<noteq> 0)"
  shows "lock_request_ok 0 0 flags w"
  using assms by (simp add: lock_request_ok_def word_gt_0)

lemma lock_request_bad:
  assumes "(len = 0 \<and> offset \<noteq> 0) \<or> unat (mLength (obj w)) < unat offset + unat len
           \<or> mLength (obj w) \<le> offset
           \<or> (flags AND D3DLOCK_READONLY \<noteq> 0 \<and> mUsage (obj w) AND D3DUSAGE_WRITEONLY \<noteq> 0)
           \<or> mLock (obj w) \<noteq> LT_Unlocked"
  shows "\<not> lock_request_ok offset len flags w"
proof
  assume ok: "lock_request_ok offset len flags w"
  then have lt: "offset < mLength (obj w)" and le: "len \<le> mLength (obj w) - offset"
    by (simp_all add: lock_request_ok_def)
  from le lt have "unat offset + unat len \<le> unat (mLength (obj w))"
    by (simp add: lock_range_nat)
  with ok lt assms show False
    by (auto simp: lock_request_ok_def word_gt_0)
qed

lemma inflight_ok_lock_field:
  "inflight_ok (w\<lparr>obj := (obj w)\<lparr>mLock := l\<rparr>\<rparr>) = inflight_ok w"
  by (simp add: inflight_ok_def)

text \<open>A request that passes the checks is granted, provided the wait ends.\<close>

lemma Lock_granted:
  assumes ok: "lock_request_ok offset len flags w" and fl: "inflight_ok w"
  shows "\<exists>w'. Lock offset len flags w = Some (D3D_OK, Some (mBufData (obj w'), unat offset), w')
     \<and> mLock (obj w') = (if flags AND D3DLOCK_READONLY \<noteq> 0 then LT_ReadOnly else LT_Full)
     \<and> mLockedOffset (obj w') = offset
     \<and> mLockedLength (obj w') = (if len = 0 then mLength (obj w) else len)
     \<and> mLength (obj w') = mLength (obj w)
     \<and> sent w' = sent w"
proof -
  consider (busy) "flags AND D3DLOCK_DISCARD \<noteq> 0" "mUpdateInProgress (obj w) \<noteq> 0"
    | (nowait) "flags AND D3DLOCK_DISCARD = 0 \<and> (flags AND D3DLOCK_NOOVERWRITE \<noteq> 0 \<or> flags AND D3DLOCK_READONLY \<noteq> 0)
         \<or> flags AND D3DLOCK_DISCARD \<noteq> 0 \<and> mUpdateInProgress (obj w) = 0"
    | (wait) "flags AND D3DLOCK_DISCARD = 0" "flags AND D3DLOCK_NOOVERWRITE = 0"
        "flags AND D3DLOCK_READONLY = 0"
    by blast
  then show ?thesis
  proof cases
    case busy
    show ?thesis
      by (simp add: Lock_discard_busy[OF ok busy])
  next
    case nowait
    show ?thesis
      by (simp add: Lock_nowait[OF ok nowait])
  next
    case wait
    let ?w1 = "w\<lparr>obj := (obj w)\<lparr>mLock := LT_Full\<rparr>\<rparr>"
    from fl have "inflight_ok ?w1" by (simp add: inflight_ok_lock_field)
    then obtain w2 where w2: "wait_update ?w1 = Some w2"
      using wait_update_returns by blast
    from wait_update_frame[OF w2] wait show ?thesis
      by (simp add: Lock_wait[OF ok wait] w2)
  qed
qed

lemma buffer0_init: "init_common 0 0 D3DPOOL_DEFAULT new_world = Some (True, buffer0)"
  by (simp add: init_common_def new_world_def D3DGLBufferObject_ctor_def align16_def
      DataAllocator_def memset_zero_def store_bytes_def sendSync_def send_def drain_def
      initGL_def buffer0_def Let_def)

lemma buffer20_locked_lock: "Lock 4 8 0 buffer20 = Some (D3D_OK, Some (Some 0, 4), buffer20_locked)"
proof -
  have ok: "lock_request_ok 4 8 0 buffer20"
    by (simp add: lock_request_ok_def buffer20_def)
  have "wait_update (buffer20\<lparr>obj := (obj buffer20)\<lparr>mLock := LT_Full\<rparr>\<rparr>)
          = Some (buffer20\<lparr>obj := (obj buffer20)\<lparr>mLock := LT_Full\<rparr>\<rparr>)"
    by (rule wait_update_zero) (simp add: buffer20_def)
  then show ?thesis
    by (simp add: Lock_wait[OF ok] buffer20_locked_def) (simp add: buffer20_def)
qed

lemma buffer20_busy_unlock: "Unlock buffer20_locked = (D3D_OK, buffer20_busy)"
  by (simp add: Unlock_full buffer20_locked_def buffer20_busy_def) (simp add: buffer20_def)

lemma inflight_ok_examples:
  "inflight_ok buffer20" "inflight_ok buffer20_locked" "inflight_ok buffer20_busy"
  "inflight_ok buffer0" "inflight_ok new_world"
  by (simp_all add: inflight_ok_def buffer20_def buffer20_locked_def buffer20_busy_def
      buffer0_def new_world_def D3DGLBufferObject_ctor_def)

lemma Lock_result:
  assumes "Lock offset len flags w = Some (hr, d, w')"
  shows "(hr = D3D_OK \<longrightarrow> mLock (obj w) = LT_Unlocked
            \<and> mLock (obj w') = (if flags AND D3DLOCK_READONLY \<noteq> 0 then LT_ReadOnly else LT_Full))
       \<and> (hr \<noteq> D3D_OK \<longrightarrow> hr = D3DERR_INVALIDCALL \<and> d = None \<and> w' = w)"
proof (cases "lock_request_ok offset len flags w")
  case False
  from Lock_rejected[OF False] assms show ?thesis by simp
next
  case ok: True
  then have u: "mLock (obj w) = LT_Unlocked" by (simp add: lock_request_ok_def)
  consider (busy) "flags AND D3DLOCK_DISCARD \<noteq> 0" "mUpdateInProgress (obj w) \<noteq> 0"
    | (nowait) "flags AND D3DLOCK_DISCARD = 0 \<and> (flags AND D3DLOCK_NOOVERWRITE \<noteq> 0 \<or> flags AND D3DLOCK_READONLY \<noteq> 0)
         \<or> flags AND D3DLOCK_DISCARD \<noteq> 0 \<and> mUpdateInProgress (obj w) = 0"
    | (wait) "flags AND D3DLOCK_DISCARD = 0" "flags AND D3DLOCK_NOOVERWRITE = 0"
        "flags AND D3DLOCK_READONLY = 0"
    by blast
  then show ?thesis
  proof cases
    case busy
    from Lock_discard_busy[OF ok busy] assms u show ?thesis by auto
  next
    case nowait
    from Lock_nowait[OF ok nowait] assms u show ?thesis by auto
  next
    case wait
    let ?w1 = "w\<lparr>obj := (obj w)\<lparr>mLock := LT_Full\<rparr>\<rparr>"
    from Lock_wait[OF ok wait] assms obtain w2 where w2: "wait_update ?w1 = Some w2"
      and r: "hr = D3D_OK"
        "w' = w2\<lparr>obj := (obj w2)\<lparr>mLockedOffset := offset,
                                   mLockedLength := (if len = 0 then mLength (obj w) else len)\<rparr>\<rparr>"
      by (auto split: option.splits)
    from wait_update_frame[OF w2] r u wait show ?thesis by simp
  qed
qed

lemma fold_execute_frame:
  "heap (fold execute cs w) = heap w" "sent (fold execute cs w) = sent w"
  "pending (fold execute cs w) = pending w"
  "mLength (obj (fold execute cs w)) = mLength (obj w)"
  "mUsage (obj (fold execute cs w)) = mUsage (obj w)"
  "mFormat (obj (fold execute cs w)) = mFormat (obj w)"
  "mFvf (obj (fold execute cs w)) = mFvf (obj w)"
  "mPool (obj (fold execute cs w)) = mPool (obj w)"
  "mBufData (obj (fold execute cs w)) = mBufData (obj w)"
  "mLock (obj (fold execute cs w)) = mLock (obj w)"
  "mLockedOffset (obj (fold execute cs w)) = mLockedOffset (obj w)"
  "mLockedLength (obj (fold execute cs w)) = mLockedLength (obj w)"
  by (induction cs arbitrary: w; simp add: execute_frame)+

lemma memset_zero_fresh:
  "memset_zero (Some (length h)) k (h @ [replicate k None]) = Some (h @ [replicate k (Some 0)])"
  by (cases "k = 0") (simp_all add: memset_zero_def store_bytes_def)

text \<open>What \<open>init_common\<close> does when the pool and the usage pass its checks.\<close>

lemma init_common_accepts:
  assumes "pool \<noteq> D3DPOOL_SCRATCH"
    and "\<not> (pool = D3DPOOL_MANAGED \<and> usage AND D3DUSAGE_DYNAMIC \<noteq> 0)"
  shows "\<exists>w'. init_common n usage pool w = Some (True, w')
     \<and> mLength (obj w') = n \<and> mUsage (obj w') = usage \<and> mPool (obj w') = pool
     \<and> mFormat (obj w') = mFormat (obj w) \<and> mFvf (obj w') = mFvf (obj w)
     \<and> mBufData (obj w') = Some (length (heap w))
     \<and> heap w' = heap w @ [replicate (unat (align16 n)) (Some 0)]
     \<and> mLock (obj w') = mLock (obj w) \<and> mLockedOffset (obj w') = mLockedOffset (obj w)
     \<and> mLockedLength (obj w') = mLockedLength (obj w)
     \<and> mUpdateInProgress (obj w') = 0 \<and> pending w' = []
     \<and> sent w' = sent w @ [InitBufferObjectCmd (Some (length (heap w)))]"
  using assms
  by (simp add: init_common_def Let_def DataAllocator_def memset_zero_fresh sendSync_def
      send_def drain_def initGL_def fold_execute_frame)

lemma init_common_rejects:
  assumes "pool = D3DPOOL_SCRATCH \<or> (pool = D3DPOOL_MANAGED \<and> usage AND D3DUSAGE_DYNAMIC \<noteq> 0)"
  shows "init_common n usage pool w =
           Some (False, w\<lparr>obj := (obj w)\<lparr>mLength := n, mUsage := usage, mPool := pool\<rparr>\<rparr>)"
  using assms by (auto simp: init_common_def Let_def)

lemma init_common_lock_field:
  assumes "init_common n usage pool w = Some (b, w')"
  shows "mLock (obj w') = mLock (obj w)"
proof (cases "pool = D3DPOOL_SCRATCH \<or> (pool = D3DPOOL_MANAGED \<and> usage AND D3DUSAGE_DYNAMIC \<noteq> 0)")
  case True
  from init_common_rejects[OF True, of n w] assms show ?thesis by auto
next
  case False
  then have "pool \<noteq> D3DPOOL_SCRATCH"
    "\<not> (pool = D3DPOOL_MANAGED \<and> usage AND D3DUSAGE_DYNAMIC \<noteq> 0)" by auto
  from init_common_accepts[OF this, of n w] assms show ?thesis by auto
qed

lemma resetBufferData_lock_field:
  "resetBufferData data n w = Some w' \<Longrightarrow> mLock (obj w') = mLock (obj w)"
  by (auto simp: resetBufferData_def Let_def DataAllocator_def queue_lock_def doSend_def
      sendAndUnlock_def send_def split: if_splits option.splits)


lemma inflight_ok_send_destroy:
  "inflight_ok (send (DestroyBufferCmd b) w) = inflight_ok w"
  by (simp add: inflight_ok_def send_def)

lemma wait_update_stuck:
  "mUpdateInProgress (obj w) \<noteq> 0 \<Longrightarrow> \<not> list_ex is_upload (pending w) \<Longrightarrow>
     \<not> list_ex is_init (pending w) \<Longrightarrow> wait_update w = None"
proof (induction w rule: wait_update.induct)
  case (1 w)
  show ?case
  proof (cases "pending w")
    case Nil
    with "1.prems" show ?thesis by (simp add: wait_update_empty)
  next
    case (Cons c cs)
    with "1.prems" have c: "\<not> is_upload c" "\<not> is_init c"
      and cs: "\<not> list_ex is_upload cs" "\<not> list_ex is_init cs"
      by simp_all
    from c have same: "mUpdateInProgress (obj (consumer_step w)) = mUpdateInProgress (obj w)"
      using Cons by (cases c) (simp_all add: consumer_step_def resizeBufferGL_def)
    have "wait_update (consumer_step w) = None"
      using "1.prems"(1) Cons cs same
      by (intro "1.IH") (simp_all add: consumer_step_frame)
    with "1.prems"(1) Cons show ?thesis
      by (simp add: wait_update_step)
  qed
qed

subsection \<open>The vertex size of init_vbo\<close>

lemma word_le_3_cases:
  fixes sel :: "32 word"
  assumes "sel \<le> 3"
  shows "sel = 0 \<or> sel = 1 \<or> sel = 2 \<or> sel = 3"
proof -
  from assms have "unat sel \<le> 3"
    by (simp add: word_le_nat_alt)
  then have "unat sel = unat (0 :: 32 word) \<or> unat sel = unat (1 :: 32 word)
     \<or> unat sel = unat (2 :: 32 word) \<or> unat sel = unat (3 :: 32 word)"
    by (simp only: unat_0 unat_1 unat_numeral) (simp, arith)
  then show ?thesis
    by (simp only: word_unat_eq_iff[symmetric])
qed

lemma texcoord_num_range: "1 \<le> texcoord_num ub fvf t \<and> texcoord_num ub fvf t \<le> 4"
proof -
  define sel where "sel = shift_right ub fvf (16 + t * 2) AND 0x03"
  have "sel \<le> 3"
    unfolding sel_def by (rule word_and_le1)
  then have "sel = 0 \<or> sel = 1 \<or> sel = 2 \<or> sel = 3"
    by (rule word_le_3_cases)
  then show ?thesis
    unfolding texcoord_num_def Let_def sel_def[symmetric]
    by (auto simp: d3d_consts)
qed

lemma texcoord_count_le: "texcoord_count fvf \<le> 15"
proof -
  have "fvf AND 0xf00 \<le> 0xf00"
    by (rule word_and_le1)
  then have "unat (fvf AND 0xf00) \<le> 3840"
    by (simp add: word_le_nat_alt)
  moreover have "texcoord_count fvf = unat (fvf AND 0xf00) div 256"
    by (simp add: texcoord_count_def d3d_consts unat_drop_bit_eq drop_bit_eq_div unat_div)
  ultimately show ?thesis
    by simp
qed

lemma fold_texcoords:
  "fold (\<lambda>t size. size + 4 * of_nat (f t)) [0 ..< n] (s :: UINT)
     = s + of_nat (\<Sum>t<n. 4 * f t)"
proof (induction n)
  case 0
  show ?case by simp
next
  case (Suc n)
  then show ?case
    by (simp add: add.assoc)
qed

lemma texcoord_sum_le:
  "(\<Sum>t<texcoord_count fvf. 4 * texcoord_num ub fvf t) \<le> 240"
proof -
  have "(\<Sum>t<texcoord_count fvf. 4 * texcoord_num ub fvf t)
          \<le> (\<Sum>t<texcoord_count fvf. 16)"
    by (rule sum_mono) (use texcoord_num_range[of ub fvf] in auto)
  also have "\<dots> = 16 * texcoord_count fvf"
    by simp
  also have "\<dots> \<le> 240"
    using texcoord_count_le[of fvf] by simp
  finally show ?thesis .
qed

lemma unat_add_small:
  fixes s :: UINT
  assumes "unat s \<le> 36" and "k \<le> 240"
  shows "unat (s + of_nat k) = unat s + k"
proof -
  have "unat (of_nat k :: UINT) = k"
    using assms(2) by (simp add: unat_of_nat)
  with assms show ?thesis
    by (simp add: unat_add_lem[THEN iffD1])
qed

lemma fvf_size_value:
  "unat (fvf_size ub fvf) =
     (if fvf AND D3DFVF_XYZRHW = D3DFVF_XYZRHW \<or> fvf AND D3DFVF_XYZW = D3DFVF_XYZW then 16
      else if fvf AND D3DFVF_XYZ = D3DFVF_XYZ then 12 else 0)
     + (if fvf AND D3DFVF_NORMAL \<noteq> 0 then 12 else 0)
     + (if fvf AND D3DFVF_DIFFUSE \<noteq> 0 then 4 else 0)
     + (if fvf AND D3DFVF_SPECULAR \<noteq> 0 then 4 else 0)
     + (\<Sum>t<texcoord_count fvf. 4 * texcoord_num ub fvf t)"
proof -
  define s4 :: UINT where "s4 =
     (if fvf AND D3DFVF_XYZRHW = D3DFVF_XYZRHW \<or> fvf AND D3DFVF_XYZW = D3DFVF_XYZW then 16
      else if fvf AND D3DFVF_XYZ = D3DFVF_XYZ then 12 else 0)
     + (if fvf AND D3DFVF_NORMAL \<noteq> 0 then 12 else 0)
     + (if fvf AND D3DFVF_DIFFUSE \<noteq> 0 then 4 else 0)
     + (if fvf AND D3DFVF_SPECULAR \<noteq> 0 then 4 else 0)"
  have size: "fvf_size ub fvf = s4 + of_nat (\<Sum>t<texcoord_count fvf. 4 * texcoord_num ub fvf t)"
    unfolding fvf_size_def Let_def fold_texcoords s4_def by simp
  have u: "unat s4 =
     (if fvf AND D3DFVF_XYZRHW = D3DFVF_XYZRHW \<or> fvf AND D3DFVF_XYZW = D3DFVF_XYZW then 16
      else if fvf AND D3DFVF_XYZ = D3DFVF_XYZ then 12 else 0)
     + (if fvf AND D3DFVF_NORMAL \<noteq> 0 then 12 else 0)
     + (if fvf AND D3DFVF_DIFFUSE \<noteq> 0 then 4 else 0)
     + (if fvf AND D3DFVF_SPECULAR \<noteq> 0 then 4 else 0)"
    unfolding s4_def by simp
  then have "unat s4 \<le> 36"
    by simp
  from unat_add_small[OF this texcoord_sum_le] size u show ?thesis
    by simp
qed

subsection \<open>Rounding up to a multiple of 16\<close>

lemma and_not_15: "(x :: 32 word) AND NOT 15 = push_bit 4 (drop_bit 4 x)"
proof -
  have "(15 :: 32 word) = mask 4" by (simp add: mask_eq_exp_minus_1)
  then show ?thesis
    by (auto simp: bit_eq_iff bit_simps)
qed

lemma unat_and_not_15: "unat ((x :: 32 word) AND NOT 15) = unat x div 16 * 16"
proof -
  have d: "unat (drop_bit 4 x) = unat x div 16"
    by (simp add: drop_bit_eq_div unat_div)
  have "unat x < 2 ^ 32"
    using unsigned_less[of x, where ?'a = nat] by simp
  then have "unat (drop_bit 4 x) * unat (16 :: 32 word) < 2 ^ LENGTH(32)"
    by (simp add: d)
  then have "unat (drop_bit 4 x * 16) = unat (drop_bit 4 x) * unat (16 :: 32 word)"
    by (simp only: unat_mult_lem)
  then have "unat (drop_bit 4 x * 2 ^ 4) = unat x div 16 * 16"
    by (simp add: d)
  then show ?thesis
    by (simp only: and_not_15 push_bit_eq_mult)
qed

lemma unat_align16: "unat (align16 n) = (unat n + 15) mod 2 ^ 32 div 16 * 16"
  by (simp only: align16_def unat_and_not_15) (simp add: unat_word_ariths)

lemma align16_dvd: "16 dvd unat (align16 n)"
  by (simp add: unat_align16)

text \<open>Without overflow \<open>align16\<close> is the least multiple of 16 that is not below.\<close>

lemma unat_align16_small:
  "unat n \<le> 0xFFFFFFF0 \<Longrightarrow> unat (align16 n) = (unat n + 15) div 16 * 16"
  by (simp add: unat_align16)

lemma align16_ge: "unat n \<le> 0xFFFFFFF0 \<Longrightarrow> unat n \<le> unat (align16 n)"
  by (simp add: unat_align16_small)

lemma align16_fits:
  assumes "unat n \<le> c" and "16 dvd c"
  shows "unat (align16 n) \<le> c"
proof -
  have "(unat n + 15) mod 2 ^ 32 \<le> unat n + 15"
    by (rule mod_less_eq_dividend)
  then have "(unat n + 15) mod 2 ^ 32 div 16 \<le> (unat n + 15) div 16"
    by (rule div_le_mono)
  moreover from assms have "(unat n + 15) div 16 * 16 \<le> c"
    by (elim dvdE) auto
  ultimately show ?thesis
    by (simp add: unat_align16)
qed

subsection \<open>The staging block under the calls\<close>

lemma store_bytes_lengths:
  "store_bytes p bs h = Some h' \<Longrightarrow> map length h' = map length h"
  by (auto simp: store_bytes_def map_update list_update_same_conv split: if_splits option.splits)

lemma store_bytes_fits:
  "store_bytes p bs h = Some h' \<Longrightarrow> bs \<noteq> [] \<Longrightarrow>
     \<exists>a. p = Some a \<and> a < length h \<and> length bs \<le> length (h ! a)"
  by (auto simp: store_bytes_def split: if_splits option.splits)

lemma capacity_cong:
  assumes "mBufData (obj w') = mBufData (obj w)" and "map length (heap w') = map length (heap w)"
  shows "capacity w' = capacity w"
proof -
  have "length (heap w') = length (heap w)"
    using assms(2) by (metis length_map)
  moreover have "length (heap w' ! a) = length (heap w ! a)" if "a < length (heap w)" for a
    using assms(2) that by (metis nth_map \<open>length (heap w') = length (heap w)\<close>)
  ultimately show ?thesis
    using assms(1) by (simp add: capacity_def split: option.splits)
qed

lemma store_bytes_fresh:
  "store_bytes (Some (length h)) bs (h @ [replicate k None]) =
     (if length bs \<le> k then Some (h @ [map Some bs @ replicate (k - length bs) None]) else None)"
  by (cases "bs = []") (simp_all add: store_bytes_def)

text \<open>The two paths of \<open>resetBufferData\<close>: a new staging block, or the old one.\<close>

lemma resetBufferData_realloc:
  assumes "mLength (obj w) < len \<or> 1 < mUpdateInProgress (obj w) + 1"
  shows "resetBufferData data len w =
     (if unat len \<le> length data \<and> unat len \<le> unat (align16 len)
      then Some (w\<lparr>obj := (obj w)\<lparr>mUpdateInProgress := mUpdateInProgress (obj w) + 1,
                                   mBufData := Some (length (heap w)), mLength := len\<rparr>,
                   heap := heap w @ [map Some (take (unat len) data)
                                      @ replicate (unat (align16 len) - unat len) None],
                   pending := pending w @ [ResizeBufferCmd,
                                           LoadBufferDataCmd 0 len (Some (length (heap w)))],
                   sent := sent w @ [ResizeBufferCmd,
                                     LoadBufferDataCmd 0 len (Some (length (heap w)))]\<rparr>)
      else None)"
  using assms
  by (auto simp: resetBufferData_def Let_def queue_lock_def DataAllocator_def doSend_def
      sendAndUnlock_def send_def memcpy_def store_bytes_fresh min_def)

lemma resetBufferData_inplace:
  assumes "\<not> (mLength (obj w) < len \<or> 1 < mUpdateInProgress (obj w) + 1)"
  shows "resetBufferData data len w =
     (case memcpy (mBufData (obj w)) data (unat len) (heap w) of
        None \<Rightarrow> None
      | Some h \<Rightarrow>
          Some (w\<lparr>obj := (obj w)\<lparr>mUpdateInProgress := mUpdateInProgress (obj w) + 1,
                                   mLength := len\<rparr>,
                   heap := h,
                   pending := pending w @ [LoadBufferDataCmd 0 len (mBufData (obj w))],
                   sent := sent w @ [LoadBufferDataCmd 0 len (mBufData (obj w))]\<rparr>))"
  using assms
  by (auto simp: resetBufferData_def Let_def queue_lock_def sendAndUnlock_def send_def
      split: option.splits)

lemma buffer20_writeonly_init:
  "init_common 20 D3DUSAGE_WRITEONLY D3DPOOL_DEFAULT new_world = Some (True, buffer20_writeonly)"
  by code_simp

text \<open>What a read-only lock without the discard flag sees after a rewrite into a new block.\<close>

lemma read_after_realloc:
  assumes w': "mBufData (obj w') = Some a" "a < length (heap w')"
      "heap w' ! a = map Some data @ pad" "mLength (obj w') = len" "length data = unat len"
    and ok: "mLock (obj w') = LT_Unlocked" "mUsage (obj w') AND D3DUSAGE_WRITEONLY = 0"
    and fl: "flags AND D3DLOCK_READONLY \<noteq> 0" "flags AND D3DLOCK_DISCARD = 0"
    and rg: "(n \<noteq> 0 \<and> unat offset + unat n \<le> unat len) \<or> (n = 0 \<and> offset = 0 \<and> len \<noteq> 0)"
  shows "\<exists>p w''. Lock offset n flags w' = Some (D3D_OK, Some p, w'')
     \<and> mLockedOffset (obj w'') = offset
     \<and> mLockedLength (obj w'') = (if n = 0 then len else n)
     \<and> read_bytes w'' p (unat (mLockedLength (obj w'')))
          = Some (map Some (take (unat (mLockedLength (obj w''))) (drop (unat offset) data)))"
proof -
  define m where "m = (if n = 0 then len else n)"
  have m: "unat offset + unat m \<le> unat len"
    using rg by (auto simp: m_def)
  have req: "lock_request_ok offset n flags w'"
  proof (cases "n = 0")
    case True
    with rg w'(4) ok have "lock_request_ok 0 0 flags w'"
      by (intro lock_request_ok_whole) auto
    with True rg show ?thesis
      by simp
  next
    case False
    with rg ok w'(4) show ?thesis
      by (intro lock_request_okI) simp_all
  qed
  have nw: "flags AND D3DLOCK_DISCARD = 0 \<and> (flags AND D3DLOCK_NOOVERWRITE \<noteq> 0 \<or> flags AND D3DLOCK_READONLY \<noteq> 0)
         \<or> flags AND D3DLOCK_DISCARD \<noteq> 0 \<and> mUpdateInProgress (obj w') = 0"
    using fl by simp
  let ?w'' = "w'\<lparr>obj := (obj w')\<lparr>mLock := (if flags AND D3DLOCK_READONLY \<noteq> 0 then LT_ReadOnly else LT_Full),
                             mLockedOffset := offset,
                             mLockedLength := (if n = 0 then mLength (obj w') else n)\<rparr>\<rparr>"
  have l: "Lock offset n flags w' = Some (D3D_OK, Some (Some a, unat offset), ?w'')"
    using Lock_nowait[OF req nw] w'(1) by simp
  have ll: "mLockedLength (obj ?w'') = m" "mLockedOffset (obj ?w'') = offset"
    by (simp_all add: m_def w'(4))
  have "take (unat m) (drop (unat offset) (map Some data @ pad))
          = map Some (take (unat m) (drop (unat offset) data))"
    using m w'(5) by (simp add: take_map drop_map)
  moreover have "unat offset + unat m \<le> length (map Some data @ pad)"
    using m w'(5) by simp
  ultimately have "read_bytes ?w'' (Some a, unat offset) (unat m)
          = Some (map Some (take (unat m) (drop (unat offset) data)))"
    using w'(2,3) by (simp add: read_bytes_def)
  then have "read_bytes ?w'' (Some a, unat offset) (unat (mLockedLength (obj ?w'')))
          = Some (map Some (take (unat (mLockedLength (obj ?w''))) (drop (unat offset) data)))"
    by (simp only: ll)
  moreover have "mLockedLength (obj ?w'') = (if n = 0 then len else n)"
    by (simp only: ll m_def)
  ultimately show ?thesis
    using l ll(2) by blast
qed

subsection \<open>The counter agrees with the queue in every state the calls reach\<close>

lemma inflight_ok_cong:
  "mUpdateInProgress (obj w') = mUpdateInProgress (obj w) \<Longrightarrow> pending w' = pending w \<Longrightarrow>
     inflight_ok w' = inflight_ok w"
  by (simp add: inflight_ok_def)

lemma inflight_ok_upload:
  assumes "inflight_ok w"
    and "mUpdateInProgress (obj w') = mUpdateInProgress (obj w) + 1"
    and "pending w' = pending w @ cs @ [LoadBufferDataCmd offset len d]"
    and "cs = [] \<or> cs = [ResizeBufferCmd]"
  shows "inflight_ok w'"
  using assms by (auto simp: inflight_ok_def)

lemma Lock_inflight_ok:
  assumes l: "Lock offset len flags w = Some (hr, d, w')" and fl: "inflight_ok w"
  shows "inflight_ok w'"
proof (cases "lock_request_ok offset len flags w")
  case False
  from Lock_rejected[OF False] l fl show ?thesis by simp
next
  case ok: True
  consider (busy) "flags AND D3DLOCK_DISCARD \<noteq> 0" "mUpdateInProgress (obj w) \<noteq> 0"
    | (nowait) "flags AND D3DLOCK_DISCARD = 0 \<and> (flags AND D3DLOCK_NOOVERWRITE \<noteq> 0 \<or> flags AND D3DLOCK_READONLY \<noteq> 0)
         \<or> flags AND D3DLOCK_DISCARD \<noteq> 0 \<and> mUpdateInProgress (obj w) = 0"
    | (wait) "flags AND D3DLOCK_DISCARD = 0" "flags AND D3DLOCK_NOOVERWRITE = 0"
        "flags AND D3DLOCK_READONLY = 0"
    by blast
  then show ?thesis
  proof cases
    case busy
    from Lock_discard_busy[OF ok busy] l
    have "mUpdateInProgress (obj w') = mUpdateInProgress (obj w)" "pending w' = pending w"
      by auto
    from inflight_ok_cong[OF this] fl show ?thesis by simp
  next
    case nowait
    from Lock_nowait[OF ok nowait] l
    have "mUpdateInProgress (obj w') = mUpdateInProgress (obj w)" "pending w' = pending w"
      by auto
    from inflight_ok_cong[OF this] fl show ?thesis by simp
  next
    case wait
    let ?w1 = "w\<lparr>obj := (obj w)\<lparr>mLock := LT_Full\<rparr>\<rparr>"
    from fl have "inflight_ok ?w1" by (simp add: inflight_ok_lock_field)
    then obtain w2 where w2: "wait_update ?w1 = Some w2" "inflight_ok w2"
      using wait_update_returns by blast
    with Lock_wait[OF ok wait] l
    have "mUpdateInProgress (obj w') = mUpdateInProgress (obj w2)" "pending w' = pending w2"
      by auto
    from inflight_ok_cong[OF this] w2(2) show ?thesis by simp
  qed
qed

lemma Unlock_inflight_ok:
  assumes "inflight_ok w"
  shows "inflight_ok (snd (Unlock w))"
proof (cases "mLock (obj w)")
  case LT_Unlocked
  with assms show ?thesis by (simp add: Unlock_unlocked)
next
  case LT_ReadOnly
  with assms show ?thesis by (simp add: Unlock_readonly inflight_ok_def)
next
  case LT_Full
  with assms show ?thesis by (simp add: Unlock_full inflight_ok_def)
qed

lemma init_common_inflight_ok:
  assumes i: "init_common n usage pool w = Some (b, w')" and fl: "inflight_ok w"
  shows "inflight_ok w'"
proof (cases "pool = D3DPOOL_SCRATCH \<or> (pool = D3DPOOL_MANAGED \<and> usage AND D3DUSAGE_DYNAMIC \<noteq> 0)")
  case True
  from init_common_rejects[OF True, of n w] i fl show ?thesis
    by (auto simp: inflight_ok_def)
next
  case False
  then have "pool \<noteq> D3DPOOL_SCRATCH"
    "\<not> (pool = D3DPOOL_MANAGED \<and> usage AND D3DUSAGE_DYNAMIC \<noteq> 0)" by auto
  from init_common_accepts[OF this, of n w] i show ?thesis
    by (auto simp: inflight_ok_def)
qed

lemma resetBufferData_inflight_ok:
  assumes r: "resetBufferData data len w = Some w'" and fl: "inflight_ok w"
  shows "inflight_ok w'"
proof (cases "mLength (obj w) < len \<or> 1 < mUpdateInProgress (obj w) + 1")
  case True
  from resetBufferData_realloc[OF True, of data] r fl show ?thesis
    by (auto simp: inflight_ok_def split: if_splits)
next
  case False
  from resetBufferData_inplace[OF False, of data] r fl show ?thesis
    by (auto simp: inflight_ok_def split: option.splits)
qed

lemma do_call_inflight_ok:
  assumes "do_call c w = Some w'" and "inflight_ok w"
  shows "inflight_ok w'"
proof (cases c)
  case (Call_init_common n usage pool)
  with assms show ?thesis
    by (auto dest: init_common_inflight_ok)
next
  case (Call_Lock offset len flags)
  with assms show ?thesis
    by (auto dest: Lock_inflight_ok)
next
  case Call_Unlock
  with assms show ?thesis
    by (auto simp: Unlock_inflight_ok)
next
  case (Call_resetBufferData data len)
  with assms show ?thesis
    by (auto dest: resetBufferData_inflight_ok)
next
  case Consumer_step
  with assms show ?thesis
    by (auto simp: inflight_ok_consumer_step)
qed

lemma run_inflight_ok: "run cs w = Some w' \<Longrightarrow> inflight_ok w \<Longrightarrow> inflight_ok w'"
proof (induction cs arbitrary: w)
  case Nil
  then show ?case by simp
next
  case (Cons c cs)
  from Cons.prems(1) obtain w1 where w1: "do_call c w = Some w1" and r: "run cs w1 = Some w'"
    by (auto split: option.splits)
  from Cons.IH[OF r do_call_inflight_ok[OF w1 Cons.prems(2)]] show ?case .
qed

lemma reachable_inflight_ok: "run cs new_world = Some w \<Longrightarrow> inflight_ok w"
  by (erule run_inflight_ok) (rule inflight_ok_examples)

subsection \<open>The staging block in every state the calls reach\<close>

lemma round16_mono: "m \<le> n \<Longrightarrow> round16 m \<le> round16 n"
  by (simp add: round16_def div_le_mono)

lemma round16_ge: "n \<le> round16 n"
  by (simp add: round16_def)

lemma round16_align16: "unat n \<le> 0xFFFFFFF0 \<Longrightarrow> unat (align16 n) = round16 (unat n)"
  by (simp add: unat_align16_small round16_def)

text \<open>
  What a call does to the staging pointer and the heap: it keeps the pointer and the size
  of every block, or it points the object to a block it has just allocated.
\<close>

lemma staging_ptr_ok_keep:
  assumes "staging_ptr_ok w" and "mBufData (obj w') = mBufData (obj w)"
    and "map length (heap w') = map length (heap w)"
  shows "staging_ptr_ok w'"
proof -
  have "length (heap w') = length (heap w)"
    using assms(3) by (metis length_map)
  with assms(1,2) show ?thesis
    by (simp add: staging_ptr_ok_def split: option.splits)
qed

lemma staging_ptr_ok_fresh:
  assumes "mBufData (obj w') = Some (length (heap w))" and "heap w' = heap w @ [b]"
  shows "staging_ptr_ok w'"
  using assms by (simp add: staging_ptr_ok_def)

lemma staging_inv_keep:
  assumes "staging_inv w" and "mBufData (obj w') = mBufData (obj w)"
    and "map length (heap w') = map length (heap w)"
    and "unat (mLength (obj w')) \<le> unat (mLength (obj w))"
  shows "staging_inv w'"
proof -
  from capacity_cong[OF assms(2,3)] have "capacity w' = capacity w" .
  moreover from assms(4) have "round16 (unat (mLength (obj w'))) \<le> round16 (unat (mLength (obj w)))"
    by (rule round16_mono)
  ultimately show ?thesis
    using assms(1,4) by (simp add: staging_inv_def staging_ok_def)
qed

lemma staging_inv_fresh:
  assumes "mBufData (obj w') = Some (length (heap w))" and "heap w' = heap w @ [b]"
    and "length b = unat (align16 (mLength (obj w')))"
    and "unat (mLength (obj w')) \<le> 0xFFFFFFF0"
  shows "staging_inv w'"
  using assms by (simp add: staging_inv_def staging_ok_def capacity_def round16_align16)

lemma Lock_staging:
  assumes l: "Lock offset len flags w = Some (hr, d, w')"
  shows "mLength (obj w') = mLength (obj w)
     \<and> (mBufData (obj w') = mBufData (obj w) \<and> heap w' = heap w
        \<or> mBufData (obj w') = Some (length (heap w))
          \<and> heap w' = heap w @ [replicate (unat (align16 (mLength (obj w)))) None])"
proof (cases "lock_request_ok offset len flags w")
  case False
  from Lock_rejected[OF False] l show ?thesis by simp
next
  case ok: True
  consider (busy) "flags AND D3DLOCK_DISCARD \<noteq> 0" "mUpdateInProgress (obj w) \<noteq> 0"
    | (nowait) "flags AND D3DLOCK_DISCARD = 0 \<and> (flags AND D3DLOCK_NOOVERWRITE \<noteq> 0 \<or> flags AND D3DLOCK_READONLY \<noteq> 0)
         \<or> flags AND D3DLOCK_DISCARD \<noteq> 0 \<and> mUpdateInProgress (obj w) = 0"
    | (wait) "flags AND D3DLOCK_DISCARD = 0" "flags AND D3DLOCK_NOOVERWRITE = 0"
        "flags AND D3DLOCK_READONLY = 0"
    by blast
  then show ?thesis
  proof cases
    case busy
    from Lock_discard_busy[OF ok busy] l show ?thesis by auto
  next
    case nowait
    from Lock_nowait[OF ok nowait] l show ?thesis by auto
  next
    case wait
    let ?w1 = "w\<lparr>obj := (obj w)\<lparr>mLock := LT_Full\<rparr>\<rparr>"
    from Lock_wait[OF ok wait] l obtain w2 where w2: "wait_update ?w1 = Some w2"
      and r: "w' = w2\<lparr>obj := (obj w2)\<lparr>mLockedOffset := offset,
                                   mLockedLength := (if len = 0 then mLength (obj w) else len)\<rparr>\<rparr>"
      by (auto split: option.splits)
    from wait_update_frame[OF w2] r show ?thesis by simp
  qed
qed

lemma Lock_returns:
  assumes "inflight_ok w"
  shows "\<exists>hr d w'. Lock offset len flags w = Some (hr, d, w')"
proof (cases "lock_request_ok offset len flags w")
  case False
  from Lock_rejected[OF False] show ?thesis by simp
next
  case True
  from Lock_granted[OF True assms] show ?thesis by blast
qed

lemma Lock_staging_ptr_ok:
  assumes l: "Lock offset len flags w = Some (hr, d, w')" and p: "staging_ptr_ok w"
  shows "staging_ptr_ok w'"
  using Lock_staging[OF l] p
  by (auto intro: staging_ptr_ok_keep staging_ptr_ok_fresh)

lemma Lock_staging_inv:
  assumes l: "Lock offset len flags w = Some (hr, d, w')" and inv: "staging_inv w"
  shows "staging_inv w'"
proof -
  from Lock_staging[OF l] have m: "mLength (obj w') = mLength (obj w)"
    and c: "mBufData (obj w') = mBufData (obj w) \<and> heap w' = heap w
        \<or> mBufData (obj w') = Some (length (heap w))
          \<and> heap w' = heap w @ [replicate (unat (align16 (mLength (obj w)))) None]"
    by simp_all
  from c show ?thesis
  proof
    assume "mBufData (obj w') = mBufData (obj w) \<and> heap w' = heap w"
    with inv m show ?thesis
      by (intro staging_inv_keep[of w w']) simp_all
  next
    assume f: "mBufData (obj w') = Some (length (heap w))
          \<and> heap w' = heap w @ [replicate (unat (align16 (mLength (obj w)))) None]"
    from f have f1: "mBufData (obj w') = Some (length (heap w))"
      and f2: "heap w' = heap w @ [replicate (unat (align16 (mLength (obj w)))) None]"
      by simp_all
    have f3: "length (replicate (unat (align16 (mLength (obj w)))) (None :: GLubyte option))
                = unat (align16 (mLength (obj w')))"
      by (simp add: m)
    from inv m have "unat (mLength (obj w')) \<le> 0xFFFFFFF0"
      by (simp add: staging_inv_def)
    with f1 f2 f3 show ?thesis
      by (rule staging_inv_fresh)
  qed
qed

text \<open>
  A copy of at most as many bytes as the staging block has is done, and leaves the size
  of every block.
\<close>

lemma memcpy_within:
  assumes "n \<le> length src" and "n \<le> capacity w"
  shows "\<exists>h. memcpy (mBufData (obj w)) src n (heap w) = Some h \<and> map length h = map length (heap w)"
proof (cases "take n src = []")
  case True
  then show ?thesis
    using assms(1) by (simp add: memcpy_def store_bytes_def)
next
  case False
  with assms(1) have "0 < n" by auto
  with assms(2) obtain a where a: "mBufData (obj w) = Some a" "a < length (heap w)"
    "capacity w = length (heap w ! a)"
    by (auto simp: capacity_def split: option.splits if_splits)
  with assms False show ?thesis
    by (simp add: memcpy_def store_bytes_def map_update list_update_same_conv)
qed

text \<open>
  \<open>resetBufferData\<close> returns, and keeps the invariant: where it does not take a new
  block, its own test has found the new length at most the old one, which the block holds.
\<close>

lemma resetBufferData_total:
  assumes inv: "staging_inv w" and len: "unat len \<le> 0xFFFFFFF0" and src: "unat len \<le> length data"
  shows "\<exists>w'. resetBufferData data len w = Some w' \<and> staging_inv w'
     \<and> (mBufData (obj w') = mBufData (obj w) \<and> map length (heap w') = map length (heap w)
        \<or> (\<exists>b. mBufData (obj w') = Some (length (heap w)) \<and> heap w' = heap w @ [b]))"
proof (cases "mLength (obj w) < len \<or> 1 < mUpdateInProgress (obj w) + 1")
  case True
  have fit: "unat len \<le> unat (align16 len)"
    using len by (rule align16_ge)
  let ?b = "map Some (take (unat len) data) @ replicate (unat (align16 len) - unat len) None :: block"
  let ?w' = "w\<lparr>obj := (obj w)\<lparr>mUpdateInProgress := mUpdateInProgress (obj w) + 1,
                                   mBufData := Some (length (heap w)), mLength := len\<rparr>,
                   heap := heap w @ [?b],
                   pending := pending w @ [ResizeBufferCmd,
                                           LoadBufferDataCmd 0 len (Some (length (heap w)))],
                   sent := sent w @ [ResizeBufferCmd,
                                     LoadBufferDataCmd 0 len (Some (length (heap w)))]\<rparr>"
  have r: "resetBufferData data len w = Some ?w'"
    using resetBufferData_realloc[OF True, of data] fit src by simp
  have "staging_inv ?w'"
    using fit src len by (intro staging_inv_fresh[of ?w' w ?b]) simp_all
  with r show ?thesis
    by simp
next
  case False
  then have "len \<le> mLength (obj w)"
    by (simp add: not_less)
  then have le: "unat len \<le> unat (mLength (obj w))"
    by (simp add: word_le_nat_alt)
  also have "\<dots> \<le> round16 (unat (mLength (obj w)))"
    by (rule round16_ge)
  also have "\<dots> \<le> capacity w"
    using inv by (simp add: staging_inv_def staging_ok_def)
  finally have "unat len \<le> capacity w" .
  from memcpy_within[OF src this] obtain h where
    h: "memcpy (mBufData (obj w)) data (unat len) (heap w) = Some h"
      "map length h = map length (heap w)"
    by blast
  let ?w' = "w\<lparr>obj := (obj w)\<lparr>mUpdateInProgress := mUpdateInProgress (obj w) + 1,
                                   mLength := len\<rparr>,
                   heap := h,
                   pending := pending w @ [LoadBufferDataCmd 0 len (mBufData (obj w))],
                   sent := sent w @ [LoadBufferDataCmd 0 len (mBufData (obj w))]\<rparr>"
  have r: "resetBufferData data len w = Some ?w'"
    using resetBufferData_inplace[OF False, of data] h(1) by simp
  have "staging_inv ?w'"
    using inv h(2) le by (intro staging_inv_keep[of w ?w']) simp_all
  with r h(2) show ?thesis
    by simp
qed

lemma resetBufferData_staging_ptr_ok:
  assumes r: "resetBufferData data len w = Some w'" and p: "staging_ptr_ok w"
  shows "staging_ptr_ok w'"
proof (cases "mLength (obj w) < len \<or> 1 < mUpdateInProgress (obj w) + 1")
  case True
  from resetBufferData_realloc[OF True, of data] r
  have "\<exists>b. mBufData (obj w') = Some (length (heap w)) \<and> heap w' = heap w @ [b]"
    by (auto split: if_splits)
  then show ?thesis
    by (auto intro: staging_ptr_ok_fresh)
next
  case False
  from resetBufferData_inplace[OF False, of data] r obtain h where
    m: "memcpy (mBufData (obj w)) data (unat len) (heap w) = Some h"
    and w': "mBufData (obj w') = mBufData (obj w)" "heap w' = h"
    by (auto split: option.splits)
  from m have "store_bytes (mBufData (obj w)) (take (unat len) data) (heap w) = Some h"
    by (auto simp: memcpy_def split: if_splits)
  from store_bytes_lengths[OF this] w' p show ?thesis
    by (intro staging_ptr_ok_keep[of w w']) simp_all
qed

lemma init_common_staging_ptr_ok:
  assumes i: "init_common n usage pool w = Some (b, w')" and p: "staging_ptr_ok w"
  shows "staging_ptr_ok w'"
proof (cases "pool = D3DPOOL_SCRATCH \<or> (pool = D3DPOOL_MANAGED \<and> usage AND D3DUSAGE_DYNAMIC \<noteq> 0)")
  case True
  from init_common_rejects[OF True, of n w] i
  have "mBufData (obj w') = mBufData (obj w)" "map length (heap w') = map length (heap w)"
    by auto
  with p show ?thesis
    by (rule staging_ptr_ok_keep)
next
  case False
  then have "pool \<noteq> D3DPOOL_SCRATCH"
    "\<not> (pool = D3DPOOL_MANAGED \<and> usage AND D3DUSAGE_DYNAMIC \<noteq> 0)" by auto
  from init_common_accepts[OF this, of n w] i show ?thesis
    by (auto intro: staging_ptr_ok_fresh)
qed

lemma do_call_staging_ptr_ok:
  assumes "do_call c w = Some w'" and "staging_ptr_ok w"
  shows "staging_ptr_ok w'"
proof (cases c)
  case (Call_init_common n usage pool)
  with assms show ?thesis
    by (auto dest: init_common_staging_ptr_ok)
next
  case (Call_Lock offset len flags)
  with assms show ?thesis
    by (auto dest: Lock_staging_ptr_ok)
next
  case Call_Unlock
  with assms(1) have w': "w' = snd (Unlock w)"
    by simp
  have "mBufData (obj (snd (Unlock w))) = mBufData (obj w)"
    "map length (heap (snd (Unlock w))) = map length (heap w)"
    by (simp_all add: Unlock_def Let_def send_def)
  with assms(2) show ?thesis
    unfolding w' by (rule staging_ptr_ok_keep)
next
  case (Call_resetBufferData data len)
  with assms show ?thesis
    by (auto dest: resetBufferData_staging_ptr_ok)
next
  case Consumer_step
  with assms(1) have w': "w' = consumer_step w"
    by simp
  have "mBufData (obj (consumer_step w)) = mBufData (obj w)"
    "map length (heap (consumer_step w)) = map length (heap w)"
    by (simp_all add: consumer_step_frame)
  with assms(2) show ?thesis
    unfolding w' by (rule staging_ptr_ok_keep)
qed

lemma run_staging_ptr_ok: "run cs w = Some w' \<Longrightarrow> staging_ptr_ok w \<Longrightarrow> staging_ptr_ok w'"
proof (induction cs arbitrary: w)
  case Nil
  then show ?case by simp
next
  case (Cons c cs)
  from Cons.prems(1) obtain w1 where w1: "do_call c w = Some w1" and r: "run cs w1 = Some w'"
    by (auto split: option.splits)
  from Cons.IH[OF r do_call_staging_ptr_ok[OF w1 Cons.prems(2)]] show ?case .
qed

lemma reachable_staging_ptr_ok: "run cs new_world = Some w \<Longrightarrow> staging_ptr_ok w"
  by (erule run_staging_ptr_ok)
     (simp add: staging_ptr_ok_def new_world_def D3DGLBufferObject_ctor_def)


text \<open>
  Every call returns and keeps the invariant, when the counter agrees with the queue, no
  \<open>init_common\<close> is rejected and the lengths are at most \<open>0xFFFFFFF0\<close>.
\<close>

lemma do_call_total:
  assumes inv: "staging_inv w" and fl: "inflight_ok w"
    and ok: "pool_usage_ok c" "length_ok c"
  shows "\<exists>w'. do_call c w = Some w' \<and> staging_inv w' \<and> inflight_ok w'"
proof -
  have "\<exists>w'. do_call c w = Some w' \<and> staging_inv w'"
  proof (cases c)
    case (Call_init_common n usage pool)
    with ok have p: "pool \<noteq> D3DPOOL_SCRATCH"
      "\<not> (pool = D3DPOOL_MANAGED \<and> usage AND D3DUSAGE_DYNAMIC \<noteq> 0)"
      and n: "unat n \<le> 0xFFFFFFF0"
      by simp_all
    from init_common_accepts[OF p, of n w] obtain w' where
      i: "init_common n usage pool w = Some (True, w')"
      and w': "mBufData (obj w') = Some (length (heap w))"
        "heap w' = heap w @ [replicate (unat (align16 n)) (Some 0)]" "mLength (obj w') = n"
      by blast
    have "length (replicate (unat (align16 n)) (Some 0 :: GLubyte option))
            = unat (align16 (mLength (obj w')))"
      by (simp add: w'(3))
    with w'(1,2) have "staging_inv w'"
      by (rule staging_inv_fresh) (simp add: w'(3) n)
    with i Call_init_common show ?thesis
      by simp
  next
    case (Call_Lock offset len flags)
    from Lock_returns[OF fl, of offset len flags] obtain hr d w' where
      l: "Lock offset len flags w = Some (hr, d, w')"
      by blast
    from Lock_staging_inv[OF l inv] l Call_Lock show ?thesis
      by simp
  next
    case Call_Unlock
    have "mBufData (obj (snd (Unlock w))) = mBufData (obj w)"
      "map length (heap (snd (Unlock w))) = map length (heap w)"
      "unat (mLength (obj (snd (Unlock w)))) \<le> unat (mLength (obj w))"
      by (simp_all add: Unlock_def Let_def send_def)
    with inv have "staging_inv (snd (Unlock w))"
      by (rule staging_inv_keep)
    with Call_Unlock show ?thesis
      by simp
  next
    case (Call_resetBufferData data len)
    with ok have "unat len \<le> 0xFFFFFFF0" "unat len \<le> length data"
      by simp_all
    from resetBufferData_total[OF inv this] Call_resetBufferData show ?thesis
      by auto
  next
    case Consumer_step
    have "mBufData (obj (consumer_step w)) = mBufData (obj w)"
      "map length (heap (consumer_step w)) = map length (heap w)"
      "unat (mLength (obj (consumer_step w))) \<le> unat (mLength (obj w))"
      by (simp_all add: consumer_step_frame)
    with inv have "staging_inv (consumer_step w)"
      by (rule staging_inv_keep)
    with Consumer_step show ?thesis
      by simp
  qed
  then obtain w' where w': "do_call c w = Some w'" "staging_inv w'"
    by blast
  from do_call_inflight_ok[OF w'(1) fl] w' show ?thesis
    by blast
qed

lemma run_total:
  "staging_inv w \<Longrightarrow> inflight_ok w \<Longrightarrow> list_all pool_usage_ok cs \<Longrightarrow> list_all length_ok cs \<Longrightarrow>
     \<exists>w'. run cs w = Some w' \<and> staging_inv w' \<and> inflight_ok w'"
proof (induction cs arbitrary: w)
  case Nil
  then show ?case by simp
next
  case (Cons c cs)
  from Cons.prems(3,4) have c: "pool_usage_ok c" "length_ok c"
    and cs: "list_all pool_usage_ok cs" "list_all length_ok cs"
    by simp_all
  from do_call_total[OF Cons.prems(1,2) c] obtain w1 where
    w1: "do_call c w = Some w1" "staging_inv w1" "inflight_ok w1"
    by blast
  from Cons.IH[OF w1(2,3) cs] w1(1) show ?case
    by simp
qed

lemma staging_inv_new_world: "staging_inv new_world"
  by (simp add: staging_inv_def staging_ok_def round16_def capacity_def new_world_def
      D3DGLBufferObject_ctor_def)

section \<open>The claims\<close>

subsection \<open>Lock followed by Unlock\<close>

text \<open>
  C1, as amended. For every buffer in the Unlocked state whose in-flight counter agrees
  with the queue (as it does in every state the calls reach from a new object, by
  \<open>reachable_inflight_ok\<close>), and flags without the read-only flag: for every offset and
  every non-zero length with offset + length within the logical length, \<open>Lock\<close>
  followed at once by \<open>Unlock\<close> succeeds twice, leaves the lock state Unlocked and
  submits exactly one command, the upload of the range that starts at the offset and has
  the given length, from the staging block; and for offset 0 and length 0 on a buffer of
  non-zero logical length it does the same, the one upload covering the whole buffer,
  from 0 and of the logical length.
\<close>

theorem C1_lock_unlock_uploads_range:
  assumes "mLock (obj w) = LT_Unlocked" and "flags AND D3DLOCK_READONLY = 0"
    and "inflight_ok w"
    and "(len \<noteq> 0 \<and> unat offset + unat len \<le> unat (mLength (obj w)))
         \<or> (len = 0 \<and> offset = 0 \<and> mLength (obj w) \<noteq> 0)"
  shows "\<exists>w2. lock_unlock offset len flags w = Some (D3D_OK, D3D_OK, w2)
     \<and> mLock (obj w2) = LT_Unlocked
     \<and> sent w2 = sent w @ [LoadBufferDataCmd offset
                                (if len = 0 then mLength (obj w) else len)
                                (mBufData (obj w2))]"
proof -
  have ok: "lock_request_ok offset len flags w"
  proof (cases "len = 0")
    case True
    with assms(1,2,4) have "lock_request_ok 0 0 flags w"
      by (intro lock_request_ok_whole) auto
    with True assms(4) show ?thesis
      by simp
  next
    case False
    with assms(1,2,4) show ?thesis
      by (intro lock_request_okI) simp_all
  qed
  from Lock_granted[OF ok \<open>inflight_ok w\<close>] assms(2) obtain w1 where
    l: "Lock offset len flags w = Some (D3D_OK, Some (mBufData (obj w1), unat offset), w1)"
    and w1: "mLock (obj w1) = LT_Full" "mLockedOffset (obj w1) = offset"
      "mLockedLength (obj w1) = (if len = 0 then mLength (obj w) else len)" "sent w1 = sent w"
    by auto
  show ?thesis
    by (simp add: lock_unlock_def l Unlock_full[OF w1(1)] w1)
qed

theorem C1_lock_unlock_uploads_range_witness:
  "(\<exists>w2. lock_unlock 4 8 0 buffer20 = Some (D3D_OK, D3D_OK, w2)
       \<and> mLock (obj w2) = LT_Unlocked
       \<and> sent w2 = sent buffer20 @ [LoadBufferDataCmd 4 8 (mBufData (obj w2))])
   \<and> (\<exists>w2. lock_unlock 0 0 0 buffer20 = Some (D3D_OK, D3D_OK, w2)
       \<and> mLock (obj w2) = LT_Unlocked
       \<and> sent w2 = sent buffer20 @ [LoadBufferDataCmd 0 20 (mBufData (obj w2))])"
proof -
  have h: "mLock (obj buffer20) = LT_Unlocked" "(0 :: DWORD) AND D3DLOCK_READONLY = 0"
    "inflight_ok buffer20"
    by (simp_all add: buffer20_def inflight_ok_def)
  have m: "mLength (obj buffer20) = 20"
    by (simp add: buffer20_def)
  have a: "((8 :: UINT) \<noteq> 0 \<and> unat (4 :: UINT) + unat (8 :: UINT) \<le> unat (mLength (obj buffer20)))
         \<or> ((8 :: UINT) = 0 \<and> (4 :: UINT) = 0 \<and> mLength (obj buffer20) \<noteq> 0)"
    by (simp add: m)
  have b: "((0 :: UINT) \<noteq> 0 \<and> unat (0 :: UINT) + unat (0 :: UINT) \<le> unat (mLength (obj buffer20)))
         \<or> ((0 :: UINT) = 0 \<and> (0 :: UINT) = 0 \<and> mLength (obj buffer20) \<noteq> 0)"
    by (simp add: m)
  from C1_lock_unlock_uploads_range[OF h a] C1_lock_unlock_uploads_range[OF h b] m
  show ?thesis
    by simp
qed

text \<open>
  The claim as stated fails for the pair (0, 0), which \<open>Lock\<close> accepts: the upload then
  covers the whole buffer, 20 bytes, and not the empty range.
\<close>

theorem C1_counterexample:
  "lock_unlock 0 0 0 buffer20 =
     Some (D3D_OK, D3D_OK,
           buffer20\<lparr>obj := (obj buffer20)\<lparr>mUpdateInProgress := 1\<rparr>,
                    pending := [LoadBufferDataCmd 0 20 (Some 0)],
                    sent := sent buffer20 @ [LoadBufferDataCmd 0 20 (Some 0)]\<rparr>)
   \<and> LoadBufferDataCmd 0 20 (Some 0) \<noteq> LoadBufferDataCmd 0 0 (Some 0)"
proof -
  have ok: "lock_request_ok 0 0 0 buffer20"
    by (simp add: lock_request_ok_def buffer20_def)
  have "wait_update (buffer20\<lparr>obj := (obj buffer20)\<lparr>mLock := LT_Full\<rparr>\<rparr>)
          = Some (buffer20\<lparr>obj := (obj buffer20)\<lparr>mLock := LT_Full\<rparr>\<rparr>)"
    by (rule wait_update_zero) (simp add: buffer20_def)
  then show ?thesis
    by (simp add: lock_unlock_def Lock_wait[OF ok] Unlock_full) (simp add: buffer20_def)
qed

subsection \<open>Validation errors\<close>

text \<open>
  C2, as amended. Every validation error of \<open>Lock\<close> (a length of 0 with an offset, a
  range that leaves the buffer, a read-only lock on a write-only buffer, a lock on a
  locked buffer) and of \<open>Unlock\<close> (on an unlocked buffer) is answered at once, without
  waiting, with the invalid-call code, and leaves every field of the world as it was.
  A bad pool and usage combination makes \<open>init_common\<close> return false, allocate nothing
  and submit nothing; of the fields, the lock state, the locked range, the staging
  pointer and the in-flight counter are as before, while the length, the usage and the
  pool hold the arguments of the rejected call.
\<close>

theorem C2_validation_errors:
  "(((len = 0 \<and> offset \<noteq> 0) \<or> unat (mLength (obj w)) < unat offset + unat len
       \<or> mLength (obj w) \<le> offset
       \<or> (flags AND D3DLOCK_READONLY \<noteq> 0 \<and> mUsage (obj w) AND D3DUSAGE_WRITEONLY \<noteq> 0)
       \<or> mLock (obj w) \<noteq> LT_Unlocked)
     \<longrightarrow> Lock offset len flags w = Some (D3DERR_INVALIDCALL, None, w))
   \<and> (mLock (obj w) = LT_Unlocked \<longrightarrow> Unlock w = (D3DERR_INVALIDCALL, w))
   \<and> ((pool = D3DPOOL_SCRATCH \<or> (pool = D3DPOOL_MANAGED \<and> usage AND D3DUSAGE_DYNAMIC \<noteq> 0))
     \<longrightarrow> init_common n usage pool w =
           Some (False, w\<lparr>obj := (obj w)\<lparr>mLength := n, mUsage := usage, mPool := pool\<rparr>\<rparr>))"
proof (intro conjI impI)
  assume "(len = 0 \<and> offset \<noteq> 0) \<or> unat (mLength (obj w)) < unat offset + unat len
       \<or> mLength (obj w) \<le> offset
       \<or> (flags AND D3DLOCK_READONLY \<noteq> 0 \<and> mUsage (obj w) AND D3DUSAGE_WRITEONLY \<noteq> 0)
       \<or> mLock (obj w) \<noteq> LT_Unlocked"
  then have "\<not> lock_request_ok offset len flags w"
    by (rule lock_request_bad)
  then show "Lock offset len flags w = Some (D3DERR_INVALIDCALL, None, w)"
    by (rule Lock_rejected)
next
  assume "mLock (obj w) = LT_Unlocked"
  then show "Unlock w = (D3DERR_INVALIDCALL, w)"
    by (rule Unlock_unlocked)
next
  assume "pool = D3DPOOL_SCRATCH \<or> (pool = D3DPOOL_MANAGED \<and> usage AND D3DUSAGE_DYNAMIC \<noteq> 0)"
  then show "init_common n usage pool w =
           Some (False, w\<lparr>obj := (obj w)\<lparr>mLength := n, mUsage := usage, mPool := pool\<rparr>\<rparr>)"
    by (auto simp: init_common_def Let_def)
qed

theorem C2_validation_errors_witness:
  "Lock 16 8 0 buffer20 = Some (D3DERR_INVALIDCALL, None, buffer20)
   \<and> Lock 0 4 0 buffer20_locked = Some (D3DERR_INVALIDCALL, None, buffer20_locked)
   \<and> Unlock buffer20 = (D3DERR_INVALIDCALL, buffer20)
   \<and> init_common 100 D3DUSAGE_DYNAMIC D3DPOOL_MANAGED buffer20 =
       Some (False, buffer20\<lparr>obj := (obj buffer20)\<lparr>mLength := 100, mUsage := D3DUSAGE_DYNAMIC,
                                                    mPool := D3DPOOL_MANAGED\<rparr>\<rparr>)"
proof -
  have a: "unat (mLength (obj buffer20)) < unat (16 :: UINT) + unat (8 :: UINT)"
    by (simp add: buffer20_def)
  have b: "mLock (obj buffer20_locked) \<noteq> LT_Unlocked"
    by (simp add: buffer20_locked_def)
  have c: "mLock (obj buffer20) = LT_Unlocked"
    by (simp add: buffer20_def)
  have d: "D3DUSAGE_DYNAMIC AND D3DUSAGE_DYNAMIC \<noteq> 0"
    by (simp add: D3DUSAGE_DYNAMIC_def)
  from C2_validation_errors[of 8 16 buffer20 0 D3DPOOL_MANAGED D3DUSAGE_DYNAMIC 100]
    C2_validation_errors[of 4 0 buffer20_locked 0 D3DPOOL_MANAGED D3DUSAGE_DYNAMIC 100]
    a b c d
  show ?thesis by simp
qed

text \<open>
  The claim as stated fails for \<open>init_common\<close>: on a new object the rejected call has
  already stored its length and its pool.
\<close>

theorem C2_counterexample:
  "init_common 100 0 D3DPOOL_SCRATCH new_world =
     Some (False, new_world\<lparr>obj := (obj new_world)\<lparr>mLength := 100, mUsage := 0,
                                                  mPool := D3DPOOL_SCRATCH\<rparr>\<rparr>)
   \<and> mLength (obj new_world) = 0
   \<and> mPool (obj new_world) = D3DPOOL_DEFAULT
   \<and> init_common 100 0 D3DPOOL_SCRATCH new_world \<noteq> Some (False, new_world)"
  by (simp add: init_common_def Let_def) (simp add: new_world_def D3DGLBufferObject_ctor_def)

subsection \<open>The capacity of the staging block\<close>

text \<open>
  C3, as amended. Take any sequence of \<open>init_common\<close>, \<open>Lock\<close>, \<open>Unlock\<close> and
  \<open>resetBufferData\<close> calls and steps of the consumer thread on a newly constructed
  object, in which no \<open>init_common\<close> call has a pool and usage that it rejects, every
  length passed to \<open>init_common\<close> or \<open>resetBufferData\<close> is at most \<open>0xFFFFFFF0\<close>,
  and \<open>resetBufferData\<close> is given at least as many bytes as its length says. Then every
  call returns, and in the state reached the capacity of the staging block is at least
  the 16-byte-aligned rounding of the logical length, the least multiple of 16 not below
  it, which is also what the code's \<open>(length+15) & ~15\<close> yields there.
\<close>

theorem C3_staging_capacity:
  assumes "list_all pool_usage_ok cs" and "list_all length_ok cs"
  shows "\<exists>w. run cs new_world = Some w
     \<and> round16 (unat (mLength (obj w))) \<le> capacity w
     \<and> unat (align16 (mLength (obj w))) = round16 (unat (mLength (obj w)))"
proof -
  have "inflight_ok new_world"
    by (rule inflight_ok_examples)
  from run_total[OF staging_inv_new_world this assms] obtain w where
    "run cs new_world = Some w" "staging_inv w"
    by blast
  then show ?thesis
    by (auto simp: staging_inv_def staging_ok_def round16_align16)
qed

text \<open>
  A 20-byte buffer is rewritten with 40 bytes, which takes a new block of 48, and then
  with 5 bytes in place.
\<close>

theorem C3_staging_capacity_witness:
  "\<exists>w. run [Call_init_common 20 0 D3DPOOL_DEFAULT, Call_resetBufferData content40 40,
             Consumer_step, Consumer_step, Call_resetBufferData [1, 2, 3, 4, 5] 5,
             Call_Lock 0 0 0, Call_Unlock] new_world = Some w
       \<and> round16 (unat (mLength (obj w))) \<le> capacity w
       \<and> mLength (obj w) = 5 \<and> capacity w = 48"
proof -
  let ?cs = "[Call_init_common 20 0 D3DPOOL_DEFAULT, Call_resetBufferData content40 40,
             Consumer_step, Consumer_step, Call_resetBufferData [1, 2, 3, 4, 5] 5,
             Call_Lock 0 0 0, Call_Unlock]"
  have ok: "list_all pool_usage_ok ?cs" "list_all length_ok ?cs"
    by (simp_all add: content40_def)
  from C3_staging_capacity[OF ok] obtain w where
    w: "run ?cs new_world = Some w" "round16 (unat (mLength (obj w))) \<le> capacity w"
    by blast
  have "map_option (\<lambda>w. (mLength (obj w), capacity w)) (run ?cs new_world) = Some (5, 48)"
    by code_simp
  with w(1) have "mLength (obj w) = 5" "capacity w = 48"
    by simp_all
  with w show ?thesis
    by blast
qed

text \<open>
  The claim as stated fails in two ways. After an \<open>init_common\<close> that rejects its pool
  the logical length is 100, its rounding 112, and there is no staging block. And an
  \<open>init_common\<close> with the length \<open>0xFFFFFFF1\<close> succeeds with a staging block of no
  bytes, the rounding having wrapped to 0; a \<open>resetBufferData\<close> of 100 bytes then finds
  the length not above the old one and copies into that block, past its end.
\<close>

theorem C3_counterexample:
  "run [Call_init_common 100 0 D3DPOOL_SCRATCH] new_world =
     Some (new_world\<lparr>obj := (obj new_world)\<lparr>mLength := 100, mUsage := 0,
                                            mPool := D3DPOOL_SCRATCH\<rparr>\<rparr>)
   \<and> capacity (new_world\<lparr>obj := (obj new_world)\<lparr>mLength := 100, mUsage := 0,
                                                mPool := D3DPOOL_SCRATCH\<rparr>\<rparr>) = 0
   \<and> round16 100 = 112
   \<and> \<not> staging_ok (new_world\<lparr>obj := (obj new_world)\<lparr>mLength := 100, mUsage := 0,
                                                    mPool := D3DPOOL_SCRATCH\<rparr>\<rparr>)
   \<and> run [Call_init_common 0xFFFFFFF1 0 D3DPOOL_DEFAULT] new_world =
       Some (buffer0\<lparr>obj := (obj buffer0)\<lparr>mLength := 0xFFFFFFF1\<rparr>\<rparr>)
   \<and> capacity (buffer0\<lparr>obj := (obj buffer0)\<lparr>mLength := 0xFFFFFFF1\<rparr>\<rparr>) = 0
   \<and> \<not> staging_ok (buffer0\<lparr>obj := (obj buffer0)\<lparr>mLength := 0xFFFFFFF1\<rparr>\<rparr>)
   \<and> run [Call_init_common 0xFFFFFFF1 0 D3DPOOL_DEFAULT,
           Call_resetBufferData (replicate 100 0) 100] new_world = None"
proof -
  let ?x = "new_world\<lparr>obj := (obj new_world)\<lparr>mLength := 100, mUsage := 0,
                                              mPool := D3DPOOL_SCRATCH\<rparr>\<rparr>"
  let ?y = "buffer0\<lparr>obj := (obj buffer0)\<lparr>mLength := 0xFFFFFFF1\<rparr>\<rparr>"
  have 1: "run [Call_init_common 100 0 D3DPOOL_SCRATCH] new_world = Some ?x"
    by (simp add: init_common_def Let_def)
  have 2: "capacity ?x = 0" "round16 100 = 112" "\<not> staging_ok ?x"
    by (simp_all add: staging_ok_def capacity_def round16_def new_world_def
        D3DGLBufferObject_ctor_def)
  have i: "init_common 0xFFFFFFF1 0 D3DPOOL_DEFAULT new_world = Some (True, ?y)"
    by code_simp
  then have 3: "run [Call_init_common 0xFFFFFFF1 0 D3DPOOL_DEFAULT] new_world = Some ?y"
    by simp
  have 4: "capacity ?y = 0" "\<not> staging_ok ?y"
    by (simp_all add: staging_ok_def capacity_def round16_def buffer0_def)
  have "resetBufferData (replicate 100 0) 100 ?y = None"
    by code_simp
  with i have 5: "run [Call_init_common 0xFFFFFFF1 0 D3DPOOL_DEFAULT,
           Call_resetBufferData (replicate 100 0) 100] new_world = None"
    by simp
  from 1 2 3 4 5 show ?thesis
    by simp
qed

subsection \<open>The lock state\<close>

text \<open>
  C4. The lock state changes only from Unlocked to ReadOnly or Full, in a \<open>Lock\<close> that
  succeeds (the compare-and-swap), and back to Unlocked in \<open>Unlock\<close>; a \<open>Lock\<close> that
  fails, \<open>init_common\<close>, \<open>resetBufferData\<close> and the consumer thread leave it alone.
  A \<open>Lock\<close> on a buffer that is already locked returns the invalid-call code and leaves
  the world, hence the lock type, the locked offset and the locked length, as they were.
\<close>

theorem C4_lock_state_transitions:
  "(Lock offset len flags w = Some (hr, d, w') \<longrightarrow>
      (hr = D3D_OK \<longrightarrow> mLock (obj w) = LT_Unlocked
            \<and> mLock (obj w') = (if flags AND D3DLOCK_READONLY \<noteq> 0 then LT_ReadOnly else LT_Full))
      \<and> (hr \<noteq> D3D_OK \<longrightarrow> hr = D3DERR_INVALIDCALL \<and> w' = w))
   \<and> (mLock (obj w) \<noteq> LT_Unlocked \<longrightarrow>
        Lock offset len flags w = Some (D3DERR_INVALIDCALL, None, w))
   \<and> (Unlock w = (hr2, w2) \<longrightarrow>
        mLock (obj w2) = LT_Unlocked \<and> (hr2 = D3D_OK) = (mLock (obj w) \<noteq> LT_Unlocked))
   \<and> (init_common n usage pool w = Some (b, w3) \<longrightarrow> mLock (obj w3) = mLock (obj w))
   \<and> (resetBufferData data n w = Some w4 \<longrightarrow> mLock (obj w4) = mLock (obj w))
   \<and> mLock (obj (consumer_step w)) = mLock (obj w)"
proof (intro conjI impI)
  assume "Lock offset len flags w = Some (hr, d, w')"
  from Lock_result[OF this]
  show "hr = D3D_OK \<Longrightarrow> mLock (obj w) = LT_Unlocked"
    and "hr = D3D_OK \<Longrightarrow> mLock (obj w') = (if flags AND D3DLOCK_READONLY \<noteq> 0 then LT_ReadOnly else LT_Full)"
    and "hr \<noteq> D3D_OK \<Longrightarrow> hr = D3DERR_INVALIDCALL"
    and "hr \<noteq> D3D_OK \<Longrightarrow> w' = w"
    by simp_all
next
  assume "mLock (obj w) \<noteq> LT_Unlocked"
  then have "\<not> lock_request_ok offset len flags w"
    by (simp add: lock_request_ok_def)
  then show "Lock offset len flags w = Some (D3DERR_INVALIDCALL, None, w)"
    by (rule Lock_rejected)
next
  assume u: "Unlock w = (hr2, w2)"
  then show "mLock (obj w2) = LT_Unlocked"
    by (auto simp: Unlock_def Let_def send_def split: if_splits)
  from u show "(hr2 = D3D_OK) = (mLock (obj w) \<noteq> LT_Unlocked)"
    by (auto simp: Unlock_def Let_def split: if_splits)
next
  assume "init_common n usage pool w = Some (b, w3)"
  then show "mLock (obj w3) = mLock (obj w)"
    by (rule init_common_lock_field)
next
  assume "resetBufferData data n w = Some w4"
  then show "mLock (obj w4) = mLock (obj w)"
    by (rule resetBufferData_lock_field)
next
  show "mLock (obj (consumer_step w)) = mLock (obj w)"
    by (simp add: consumer_step_frame)
qed

theorem C4_lock_state_transitions_witness:
  "Lock 4 8 0 buffer20 = Some (D3D_OK, Some (Some 0, 4), buffer20_locked)
   \<and> mLock (obj buffer20) = LT_Unlocked \<and> mLock (obj buffer20_locked) = LT_Full
   \<and> Lock 0 4 0 buffer20_locked = Some (D3DERR_INVALIDCALL, None, buffer20_locked)
   \<and> Unlock buffer20_locked = (D3D_OK, buffer20_busy)
   \<and> mLock (obj buffer20_busy) = LT_Unlocked
   \<and> init_common 20 0 D3DPOOL_DEFAULT new_world = Some (True, buffer20)
   \<and> mLock (obj new_world) = LT_Unlocked
   \<and> (\<exists>w4. resetBufferData content40 40 buffer20_locked = Some w4 \<and> mLock (obj w4) = LT_Full)
   \<and> mLock (obj (consumer_step buffer20_locked)) = LT_Full"
proof -
  have l: "Lock 4 8 0 buffer20 = Some (D3D_OK, Some (Some 0, 4), buffer20_locked)"
    by (rule buffer20_locked_lock)
  have u: "Unlock buffer20_locked = (D3D_OK, buffer20_busy)"
    by (rule buffer20_busy_unlock)
  have f: "mLock (obj buffer20_locked) = LT_Full"
    by (simp add: buffer20_locked_def)
  have i: "init_common 20 0 D3DPOOL_DEFAULT new_world = Some (True, buffer20)"
    by (rule buffer20_init)
  have "resetBufferData content40 40 buffer20_locked \<noteq> None"
    by code_simp
  then obtain w4 where r: "resetBufferData content40 40 buffer20_locked = Some w4"
    by auto
  have 1: "mLock (obj buffer20) = LT_Unlocked \<and> mLock (obj buffer20_locked) = LT_Full"
    using C4_lock_state_transitions[of 4 8 0 buffer20 D3D_OK "Some (Some 0, 4)" buffer20_locked,
        THEN conjunct1, THEN mp, OF l]
    by simp
  have 2: "Lock 0 4 0 buffer20_locked = Some (D3DERR_INVALIDCALL, None, buffer20_locked)"
    using C4_lock_state_transitions[of 0 4 0 buffer20_locked,
        THEN conjunct2, THEN conjunct1, THEN mp] f
    by simp
  have 3: "mLock (obj buffer20_busy) = LT_Unlocked"
    using C4_lock_state_transitions[of _ _ _ buffer20_locked _ _ _ D3D_OK buffer20_busy,
        THEN conjunct2, THEN conjunct2, THEN conjunct1, THEN mp, OF u]
    by simp
  have 4: "mLock (obj buffer20) = mLock (obj new_world)"
    using C4_lock_state_transitions[of _ _ _ new_world _ _ _ _ _ 20 0 D3DPOOL_DEFAULT True buffer20,
        THEN conjunct2, THEN conjunct2, THEN conjunct2, THEN conjunct1, THEN mp, OF i] .
  have 5: "mLock (obj w4) = mLock (obj buffer20_locked)"
    using C4_lock_state_transitions[of _ _ _ buffer20_locked _ _ _ _ _ 40 _ _ _ _ content40 w4,
        THEN conjunct2, THEN conjunct2, THEN conjunct2, THEN conjunct2, THEN conjunct1,
        THEN mp, OF r] .
  have 6: "mLock (obj (consumer_step buffer20_locked)) = mLock (obj buffer20_locked)"
    using C4_lock_state_transitions[of _ _ _ buffer20_locked,
        THEN conjunct2, THEN conjunct2, THEN conjunct2, THEN conjunct2, THEN conjunct2] .
  from 5 f r have "\<exists>w4. resetBufferData content40 40 buffer20_locked = Some w4 \<and> mLock (obj w4) = LT_Full"
    by simp
  with l u i 1 2 3 4 6 show ?thesis
    by simp
qed

subsection \<open>Discard and plain locks with an update in flight\<close>




subsection \<open>Destruction\<close>

text \<open>
  C6. The destructor submits one command, the destroy command for the buffer's handle,
  when the handle is non-zero, and none when it is zero. Where its body ends the
  in-flight counter is zero and the object still holds its staging block; the block is
  given up only after that, with the members. When the counter agrees with the queue the
  destructor returns; when the counter is non-zero and nothing in the queue can lower it,
  it never returns and the block is never given up.
\<close>

theorem C6_destructor_waits:
  "(dtor_body w = Some w1 \<longrightarrow>
      sent w1 = sent w @ (if mBufferId (obj w) \<noteq> 0
                          then [DestroyBufferCmd (mBufferId (obj w))] else [])
      \<and> mUpdateInProgress (obj w1) = 0
      \<and> mBufData (obj w1) = mBufData (obj w) \<and> heap w1 = heap w
      \<and> mBufferId (obj w1) = 0)
   \<and> (D3DGLBufferObject_dtor w = Some w2 \<longrightarrow>
        map_option dtor_members (dtor_body w) = Some w2
        \<and> sent w2 = sent w @ (if mBufferId (obj w) \<noteq> 0
                              then [DestroyBufferCmd (mBufferId (obj w))] else [])
        \<and> mUpdateInProgress (obj w2) = 0 \<and> mBufData (obj w2) = None)
   \<and> (inflight_ok w \<longrightarrow> D3DGLBufferObject_dtor w \<noteq> None)
   \<and> (mUpdateInProgress (obj w) \<noteq> 0 \<and> \<not> list_ex is_upload (pending w)
        \<and> \<not> list_ex is_init (pending w) \<longrightarrow> D3DGLBufferObject_dtor w = None)"
proof -
  let ?w0 = "if mBufferId (obj w) \<noteq> 0 then send (DestroyBufferCmd (mBufferId (obj w))) w else w"
  have body: "dtor_body w = map_option (\<lambda>w2. w2\<lparr>obj := (obj w2)\<lparr>mBufferId := 0\<rparr>\<rparr>) (wait_update ?w0)"
    by (simp add: dtor_body_def Let_def split: option.splits)
  have w0: "sent ?w0 = sent w @ (if mBufferId (obj w) \<noteq> 0
                          then [DestroyBufferCmd (mBufferId (obj w))] else [])"
    "mBufData (obj ?w0) = mBufData (obj w)" "heap ?w0 = heap w"
    "mUpdateInProgress (obj ?w0) = mUpdateInProgress (obj w)"
    by (simp_all add: send_def)
  have a: "sent w1 = sent w @ (if mBufferId (obj w) \<noteq> 0
                          then [DestroyBufferCmd (mBufferId (obj w))] else [])
      \<and> mUpdateInProgress (obj w1) = 0
      \<and> mBufData (obj w1) = mBufData (obj w) \<and> heap w1 = heap w
      \<and> mBufferId (obj w1) = 0" if "dtor_body w = Some w1" for w1
  proof -
    from that body obtain w' where w': "wait_update ?w0 = Some w'"
      and w1: "w1 = w'\<lparr>obj := (obj w')\<lparr>mBufferId := 0\<rparr>\<rparr>"
      by auto
    from wait_update_frame[OF w'] w0 w1 show ?thesis
      by simp
  qed
  have b: "map_option dtor_members (dtor_body w) = Some w2
        \<and> sent w2 = sent w @ (if mBufferId (obj w) \<noteq> 0
                              then [DestroyBufferCmd (mBufferId (obj w))] else [])
        \<and> mUpdateInProgress (obj w2) = 0 \<and> mBufData (obj w2) = None"
    if "D3DGLBufferObject_dtor w = Some w2"
  proof -
    from that obtain w1 where w1: "dtor_body w = Some w1" and w2: "w2 = dtor_members w1"
      by (auto simp: D3DGLBufferObject_dtor_def)
    from a[OF w1] w1 w2 show ?thesis
      by (simp add: dtor_members_def)
  qed
  have c: "D3DGLBufferObject_dtor w \<noteq> None" if "inflight_ok w"
  proof -
    from that have "inflight_ok ?w0"
      by (simp add: inflight_ok_send_destroy)
    then obtain w' where "wait_update ?w0 = Some w'"
      using wait_update_returns by blast
    then show ?thesis
      by (simp add: D3DGLBufferObject_dtor_def body)
  qed
  have d: "D3DGLBufferObject_dtor w = None"
    if "mUpdateInProgress (obj w) \<noteq> 0 \<and> \<not> list_ex is_upload (pending w)
        \<and> \<not> list_ex is_init (pending w)"
  proof -
    from that have "wait_update ?w0 = None"
      by (intro wait_update_stuck) (simp_all add: send_def)
    then show ?thesis
      by (simp add: D3DGLBufferObject_dtor_def body)
  qed
  from a b c d show ?thesis by blast
qed

theorem C6_destructor_waits_witness:
  "dtor_body buffer20_busy =
     Some (buffer20_busy\<lparr>obj := (obj buffer20_busy)\<lparr>mBufferId := 0, mUpdateInProgress := 0\<rparr>,
                         pending := [DestroyBufferCmd 1],
                         sent := sent buffer20_busy @ [DestroyBufferCmd 1]\<rparr>)
   \<and> (\<exists>w2. D3DGLBufferObject_dtor buffer20_busy = Some w2
          \<and> sent w2 = sent buffer20_busy @ [DestroyBufferCmd 1]
          \<and> mUpdateInProgress (obj w2) = 0 \<and> mBufData (obj w2) = None)
   \<and> D3DGLBufferObject_dtor (buffer20_busy\<lparr>pending := []\<rparr>) = None"
proof -
  have body: "dtor_body buffer20_busy =
     Some (buffer20_busy\<lparr>obj := (obj buffer20_busy)\<lparr>mBufferId := 0, mUpdateInProgress := 0\<rparr>,
                         pending := [DestroyBufferCmd 1],
                         sent := sent buffer20_busy @ [DestroyBufferCmd 1]\<rparr>)"
    by code_simp
  have fl: "inflight_ok buffer20_busy"
    by (rule inflight_ok_examples)
  have id: "mBufferId (obj buffer20_busy) = 1"
    by (simp add: buffer20_busy_def buffer20_def)
  have stuck: "mUpdateInProgress (obj (buffer20_busy\<lparr>pending := []\<rparr>)) \<noteq> 0
     \<and> \<not> list_ex is_upload (pending (buffer20_busy\<lparr>pending := []\<rparr>))
     \<and> \<not> list_ex is_init (pending (buffer20_busy\<lparr>pending := []\<rparr>))"
    by (simp add: buffer20_busy_def)
  from C6_destructor_waits[of buffer20_busy _ _] fl
  obtain w2 where w2: "D3DGLBufferObject_dtor buffer20_busy = Some w2"
    by auto
  from C6_destructor_waits[of buffer20_busy _ w2] w2 id
  have "sent w2 = sent buffer20_busy @ [DestroyBufferCmd 1]
          \<and> mUpdateInProgress (obj w2) = 0 \<and> mBufData (obj w2) = None"
    by simp
  with w2 body C6_destructor_waits[of "buffer20_busy\<lparr>pending := []\<rparr>" _ _] stuck
  show ?thesis by blast
qed

subsection \<open>Rewriting beyond the capacity\<close>

text \<open>
  C7, as amended. For every buffer whose staging block holds at least its logical length,
  and every new content of a length greater than the block's capacity and at most
  \<open>0xFFFFFFF0\<close>: \<open>resetBufferData\<close> returns; afterwards the capacity of the staging
  block is at least the new length rounded up to a multiple of 16 and the logical length
  is the new length; and, when the buffer is unlocked and not write-only, a \<open>Lock\<close> with
  the read-only flag and without the discard flag, over any non-empty sub-range or with
  offset 0 and length 0 over the whole buffer, succeeds and returns a pointer through
  which exactly the bytes of the new content in the locked range are read.
\<close>

theorem C7_reset_grows_and_shows:
  assumes "unat (mLength (obj w)) \<le> capacity w" and "capacity w < unat len"
    and "length data = unat len" and "unat len \<le> 0xFFFFFFF0"
  shows "\<exists>w'. resetBufferData data len w = Some w'
     \<and> unat (align16 len) \<le> capacity w'
     \<and> (unat len + 15) div 16 * 16 \<le> capacity w'
     \<and> mLength (obj w') = len
     \<and> (\<forall>offset n flags.
           mLock (obj w) = LT_Unlocked \<and> mUsage (obj w) AND D3DUSAGE_WRITEONLY = 0
           \<and> flags AND D3DLOCK_READONLY \<noteq> 0 \<and> flags AND D3DLOCK_DISCARD = 0
           \<and> ((n \<noteq> 0 \<and> unat offset + unat n \<le> unat len) \<or> (n = 0 \<and> offset = 0)) \<longrightarrow>
           (\<exists>p w''. Lock offset n flags w' = Some (D3D_OK, Some p, w'')
              \<and> mLockedOffset (obj w'') = offset
              \<and> mLockedLength (obj w'') = (if n = 0 then len else n)
              \<and> read_bytes w'' p (unat (mLockedLength (obj w'')))
                  = Some (map Some (take (unat (mLockedLength (obj w'')))
                                         (drop (unat offset) data)))))"
proof -
  from assms(1,2) have grow: "mLength (obj w) < len \<or> 1 < mUpdateInProgress (obj w) + 1"
    by (simp add: word_less_nat_alt)
  from assms(2) have nz: "len \<noteq> 0"
    by auto
  have fit: "unat len \<le> unat (align16 len)"
    using assms(4) by (rule align16_ge)
  let ?a = "length (heap w)"
  let ?pad = "replicate (unat (align16 len) - unat len) None :: block"
  define w' where "w' =
     w\<lparr>obj := (obj w)\<lparr>mUpdateInProgress := mUpdateInProgress (obj w) + 1,
                       mBufData := Some ?a, mLength := len\<rparr>,
       heap := heap w @ [map Some (take (unat len) data) @ ?pad],
       pending := pending w @ [ResizeBufferCmd, LoadBufferDataCmd 0 len (Some ?a)],
       sent := sent w @ [ResizeBufferCmd, LoadBufferDataCmd 0 len (Some ?a)]\<rparr>"
  have r: "resetBufferData data len w = Some w'"
    using resetBufferData_realloc[OF grow, of data] fit assms(3) by (simp add: w'_def)
  have f: "mBufData (obj w') = Some ?a" "?a < length (heap w')"
    "heap w' ! ?a = map Some data @ ?pad" "mLength (obj w') = len"
    "mLock (obj w') = mLock (obj w)" "mUsage (obj w') = mUsage (obj w)"
    using assms(3) by (simp_all add: w'_def)
  have c: "capacity w' = unat (align16 len)"
    using fit assms(3) by (simp add: capacity_def f)
  have "\<exists>p w''. Lock offset n flags w' = Some (D3D_OK, Some p, w'')
              \<and> mLockedOffset (obj w'') = offset
              \<and> mLockedLength (obj w'') = (if n = 0 then len else n)
              \<and> read_bytes w'' p (unat (mLockedLength (obj w'')))
                  = Some (map Some (take (unat (mLockedLength (obj w'')))
                                         (drop (unat offset) data)))"
    if "mLock (obj w) = LT_Unlocked \<and> mUsage (obj w) AND D3DUSAGE_WRITEONLY = 0
           \<and> flags AND D3DLOCK_READONLY \<noteq> 0 \<and> flags AND D3DLOCK_DISCARD = 0
           \<and> ((n \<noteq> 0 \<and> unat offset + unat n \<le> unat len) \<or> (n = 0 \<and> offset = 0))"
    for offset n flags
  proof -
    from that have h: "mLock (obj w) = LT_Unlocked" "mUsage (obj w) AND D3DUSAGE_WRITEONLY = 0"
      "flags AND D3DLOCK_READONLY \<noteq> 0" "flags AND D3DLOCK_DISCARD = 0"
      "(n \<noteq> 0 \<and> unat offset + unat n \<le> unat len) \<or> (n = 0 \<and> offset = 0)"
      by blast+
    from h(1,2) f(5,6) have u: "mLock (obj w') = LT_Unlocked"
      "mUsage (obj w') AND D3DUSAGE_WRITEONLY = 0"
      by simp_all
    from h(5) nz
    have rg: "(n \<noteq> 0 \<and> unat offset + unat n \<le> unat len) \<or> (n = 0 \<and> offset = 0 \<and> len \<noteq> 0)"
      by blast
    from f(1-4) assms(3) u h(3,4) rg show ?thesis
      by (rule read_after_realloc)
  qed
  with r c f(4) assms(4) show ?thesis
    by (auto simp: unat_align16_small)
qed

theorem C7_reset_grows_and_shows_witness:
  "\<exists>w'. resetBufferData content40 40 buffer20 = Some w'
     \<and> 48 \<le> capacity w' \<and> mLength (obj w') = 40
     \<and> (\<exists>p w''. Lock 4 8 D3DLOCK_READONLY w' = Some (D3D_OK, Some p, w'')
           \<and> read_bytes w'' p 8 = Some (map Some [5, 6, 7, 8, 9, 10, 11, 12]))"
proof -
  have a: "unat (mLength (obj buffer20)) \<le> capacity buffer20" "capacity buffer20 < unat (40 :: UINT)"
    "length content40 = unat (40 :: UINT)" "unat (40 :: UINT) \<le> 0xFFFFFFF0"
    by (simp_all add: buffer20_def capacity_def content40_def)
  have h: "mLock (obj buffer20) = LT_Unlocked \<and> mUsage (obj buffer20) AND D3DUSAGE_WRITEONLY = 0
           \<and> D3DLOCK_READONLY AND D3DLOCK_READONLY \<noteq> 0 \<and> D3DLOCK_READONLY AND D3DLOCK_DISCARD = 0
           \<and> (((8 :: UINT) \<noteq> 0 \<and> unat (4 :: UINT) + unat (8 :: UINT) \<le> unat (40 :: UINT))
                \<or> ((8 :: UINT) = 0 \<and> (4 :: UINT) = 0))"
    by (simp add: buffer20_def d3d_consts)
  have t: "take (unat (8 :: UINT)) (drop (unat (4 :: UINT)) content40) = [5, 6, 7, 8, 9, 10, 11, 12]"
    by code_simp
  from C7_reset_grows_and_shows[OF a] obtain w' where
    w': "resetBufferData content40 40 buffer20 = Some w'"
      "(unat (40 :: UINT) + 15) div 16 * 16 \<le> capacity w'" "mLength (obj w') = 40"
    and rd: "\<And>offset n flags.
           mLock (obj buffer20) = LT_Unlocked \<and> mUsage (obj buffer20) AND D3DUSAGE_WRITEONLY = 0
           \<and> flags AND D3DLOCK_READONLY \<noteq> 0 \<and> flags AND D3DLOCK_DISCARD = 0
           \<and> ((n \<noteq> 0 \<and> unat offset + unat n \<le> unat (40 :: UINT)) \<or> (n = 0 \<and> offset = 0)) \<Longrightarrow>
           (\<exists>p w''. Lock offset n flags w' = Some (D3D_OK, Some p, w'')
              \<and> mLockedOffset (obj w'') = offset
              \<and> mLockedLength (obj w'') = (if n = 0 then 40 else n)
              \<and> read_bytes w'' p (unat (mLockedLength (obj w'')))
                  = Some (map Some (take (unat (mLockedLength (obj w'')))
                                         (drop (unat offset) content40))))"
    by blast
  from rd[OF h] obtain p w'' where
    l: "Lock 4 8 D3DLOCK_READONLY w' = Some (D3D_OK, Some p, w'')"
    and m: "mLockedLength (obj w'') = 8"
    and b: "read_bytes w'' p (unat (mLockedLength (obj w'')))
                  = Some (map Some (take (unat (mLockedLength (obj w'')))
                                         (drop (unat (4 :: UINT)) content40)))"
    by auto
  from b t have "read_bytes w'' p 8 = Some (map Some [5, 6, 7, 8, 9, 10, 11, 12])"
    by (simp add: m)
  with l have "\<exists>p w''. Lock 4 8 D3DLOCK_READONLY w' = Some (D3D_OK, Some p, w'')
           \<and> read_bytes w'' p 8 = Some (map Some [5, 6, 7, 8, 9, 10, 11, 12])"
    by blast
  with w' show ?thesis
    by (intro exI[of _ w']) simp
qed

text \<open>
  The claim as stated fails in four ways. On a write-only buffer the read-only lock is
  refused. A lock with the read-only flag and the discard flag gets a new block, of which
  no byte has been written. A new content of \<open>0xFFFFFFF1\<close> bytes gets a block of no
  bytes, and the copy leaves it. And on the object an \<open>init_common\<close> has rejected,
  with a logical length of 100 and no staging block, 50 bytes are copied through a null
  pointer.
\<close>

theorem C7_counterexample:
  "reset_then_read content40 40 0 0 D3DLOCK_READONLY buffer20_writeonly
     = Some (D3DERR_INVALIDCALL, None)
   \<and> reset_then_read content40 40 0 0 (D3DLOCK_READONLY OR D3DLOCK_DISCARD) buffer20
     = Some (D3D_OK, Some (replicate 40 None))
   \<and> resetBufferData (replicate 4294967281 0) 0xFFFFFFF1 buffer20 = None
   \<and> resetBufferData (replicate 50 0) 50
        (new_world\<lparr>obj := (obj new_world)\<lparr>mLength := 100, mUsage := 0,
                                              mPool := D3DPOOL_SCRATCH\<rparr>\<rparr>) = None"
proof -
  have 1: "reset_then_read content40 40 0 0 D3DLOCK_READONLY buffer20_writeonly
     = Some (D3DERR_INVALIDCALL, None)"
    by code_simp
  have 2: "reset_then_read content40 40 0 0 (D3DLOCK_READONLY OR D3DLOCK_DISCARD) buffer20
     = Some (D3D_OK, Some (replicate 40 None))"
    by code_simp
  have "mLength (obj buffer20) < 0xFFFFFFF1 \<or> 1 < mUpdateInProgress (obj buffer20) + 1"
    by (simp add: buffer20_def)
  from resetBufferData_realloc[OF this, of "replicate 4294967281 0"]
  have 3: "resetBufferData (replicate 4294967281 0) 0xFFFFFFF1 buffer20 = None"
    by (simp add: align16_def)
  have 4: "resetBufferData (replicate 50 0) 50
        (new_world\<lparr>obj := (obj new_world)\<lparr>mLength := 100, mUsage := 0,
                                              mPool := D3DPOOL_SCRATCH\<rparr>\<rparr>) = None"
    by code_simp
  from 1 2 3 4 show ?thesis by simp
qed

subsection \<open>Locking the whole buffer\<close>

text \<open>
  C8, as amended. For every Unlocked buffer of non-zero logical length whose in-flight
  counter agrees with the queue, \<open>Lock\<close> with length 0 and offset 0 succeeds (unless it
  asks for a read-only lock on a write-only buffer) and locks the entire buffer: the
  locked range becomes offset 0, length the logical length. \<open>Lock\<close> with length 0 and a
  non-zero offset fails with the invalid-call code on every buffer, changing nothing.
\<close>

theorem C8_lock_whole_buffer:
  "(mLock (obj w) = LT_Unlocked \<and> mLength (obj w) \<noteq> 0 \<and> inflight_ok w
      \<and> \<not> (flags AND D3DLOCK_READONLY \<noteq> 0 \<and> mUsage (obj w) AND D3DUSAGE_WRITEONLY \<noteq> 0)
     \<longrightarrow> (\<exists>w'. Lock 0 0 flags w = Some (D3D_OK, Some (mBufData (obj w'), 0), w')
           \<and> mLock (obj w') = (if flags AND D3DLOCK_READONLY \<noteq> 0 then LT_ReadOnly else LT_Full)
           \<and> mLockedOffset (obj w') = 0
           \<and> mLockedLength (obj w') = mLength (obj w)
           \<and> mLength (obj w') = mLength (obj w)))
   \<and> (offset \<noteq> 0 \<longrightarrow> Lock offset 0 flags' w = Some (D3DERR_INVALIDCALL, None, w))"
proof (intro conjI impI)
  assume a: "mLock (obj w) = LT_Unlocked \<and> mLength (obj w) \<noteq> 0 \<and> inflight_ok w
      \<and> \<not> (flags AND D3DLOCK_READONLY \<noteq> 0 \<and> mUsage (obj w) AND D3DUSAGE_WRITEONLY \<noteq> 0)"
  then have ok: "lock_request_ok 0 0 flags w"
    by (intro lock_request_ok_whole) simp_all
  from a have fl: "inflight_ok w" by simp
  from Lock_granted[OF ok fl]
  show "\<exists>w'. Lock 0 0 flags w = Some (D3D_OK, Some (mBufData (obj w'), 0), w')
           \<and> mLock (obj w') = (if flags AND D3DLOCK_READONLY \<noteq> 0 then LT_ReadOnly else LT_Full)
           \<and> mLockedOffset (obj w') = 0
           \<and> mLockedLength (obj w') = mLength (obj w)
           \<and> mLength (obj w') = mLength (obj w)"
    by auto
next
  assume "offset \<noteq> 0"
  then show "Lock offset 0 flags' w = Some (D3DERR_INVALIDCALL, None, w)"
    by (simp add: Lock_def word_gt_0)
qed

theorem C8_lock_whole_buffer_witness:
  "(\<exists>w'. Lock 0 0 0 buffer20 = Some (D3D_OK, Some (mBufData (obj w'), 0), w')
           \<and> mLock (obj w') = LT_Full
           \<and> mLockedOffset (obj w') = 0
           \<and> mLockedLength (obj w') = 20
           \<and> mLength (obj w') = 20)
   \<and> Lock 4 0 0 buffer20 = Some (D3DERR_INVALIDCALL, None, buffer20)"
proof -
  have h: "mLock (obj buffer20) = LT_Unlocked \<and> mLength (obj buffer20) \<noteq> 0 \<and> inflight_ok buffer20
      \<and> \<not> ((0 :: DWORD) AND D3DLOCK_READONLY \<noteq> 0 \<and> mUsage (obj buffer20) AND D3DUSAGE_WRITEONLY \<noteq> 0)"
    by (simp add: inflight_ok_examples) (simp add: buffer20_def)
  have m: "mLength (obj buffer20) = 20"
    by (simp add: buffer20_def)
  from C8_lock_whole_buffer[of buffer20 0 4 0] h m show ?thesis
    by simp
qed

text \<open>
  The claim as stated fails on a buffer of length zero: \<open>Lock\<close> with length 0 and
  offset 0 is rejected there, by the check \<open>offset >= mLength\<close>.
\<close>

theorem C8_counterexample:
  "init_common 0 0 D3DPOOL_DEFAULT new_world = Some (True, buffer0)
   \<and> Lock 0 0 0 buffer0 = Some (D3DERR_INVALIDCALL, None, buffer0)"
proof -
  have "\<not> lock_request_ok 0 0 0 buffer0"
    by (simp add: lock_request_ok_def buffer0_def)
  then show ?thesis
    by (simp add: buffer0_init Lock_rejected)
qed

subsection \<open>Unlock without a lock\<close>

text \<open>
  C9. Calling \<open>Unlock\<close> on a buffer whose lock state is Unlocked returns the invalid-call
  code and leaves the world as it was: no upload command is submitted, and neither the
  in-flight counter nor any other field changes.
\<close>

theorem C9_unlock_when_unlocked:
  "mLock (obj w) = LT_Unlocked \<Longrightarrow> Unlock w = (D3DERR_INVALIDCALL, w)"
  by (simp add: Unlock_def)

theorem C9_unlock_when_unlocked_witness:
  "mLock (obj buffer20) = LT_Unlocked \<and> Unlock buffer20 = (D3DERR_INVALIDCALL, buffer20)"
proof -
  have h: "mLock (obj buffer20) = LT_Unlocked" by (simp add: buffer20_def)
  from C9_unlock_when_unlocked[OF h] h show ?thesis by simp
qed

subsection \<open>The vertex size check of init_vbo\<close>

text \<open>
  C10. The vertex size \<open>init_vbo\<close> computes from the FVF flags is, in bytes: 16 for an
  XYZRHW or XYZW position and 12 for an XYZ position, plus 12 for a normal, plus 4 for a
  diffuse and 4 for a specular colour, plus 4 for each float of each declared texture
  coordinate set, every set having 1 to 4 floats. The sum does not overflow. When the
  requested length is smaller than this size \<open>init_vbo\<close> returns false and leaves the
  world as it was: no staging memory is allocated and no command is submitted.
\<close>

theorem C10_init_vbo_vertex_size:
  "unat (fvf_size ub fvf) =
     (if fvf AND D3DFVF_XYZRHW = D3DFVF_XYZRHW \<or> fvf AND D3DFVF_XYZW = D3DFVF_XYZW then 16
      else if fvf AND D3DFVF_XYZ = D3DFVF_XYZ then 12 else 0)
     + (if fvf AND D3DFVF_NORMAL \<noteq> 0 then 12 else 0)
     + (if fvf AND D3DFVF_DIFFUSE \<noteq> 0 then 4 else 0)
     + (if fvf AND D3DFVF_SPECULAR \<noteq> 0 then 4 else 0)
     + (\<Sum>t<texcoord_count fvf. 4 * texcoord_num ub fvf t)
   \<and> (\<forall>t. 1 \<le> texcoord_num ub fvf t \<and> texcoord_num ub fvf t \<le> 4)
   \<and> (len < fvf_size ub fvf \<longrightarrow> init_vbo ub len usage fvf pool w = Some (False, w))"
proof (intro conjI allI impI)
  show "unat (fvf_size ub fvf) =
     (if fvf AND D3DFVF_XYZRHW = D3DFVF_XYZRHW \<or> fvf AND D3DFVF_XYZW = D3DFVF_XYZW then 16
      else if fvf AND D3DFVF_XYZ = D3DFVF_XYZ then 12 else 0)
     + (if fvf AND D3DFVF_NORMAL \<noteq> 0 then 12 else 0)
     + (if fvf AND D3DFVF_DIFFUSE \<noteq> 0 then 4 else 0)
     + (if fvf AND D3DFVF_SPECULAR \<noteq> 0 then 4 else 0)
     + (\<Sum>t<texcoord_count fvf. 4 * texcoord_num ub fvf t)"
    by (rule fvf_size_value)
next
  fix t
  show "1 \<le> texcoord_num ub fvf t" "texcoord_num ub fvf t \<le> 4"
    using texcoord_num_range[of ub fvf t] by simp_all
next
  assume "len < fvf_size ub fvf"
  then show "init_vbo ub len usage fvf pool w = Some (False, w)"
    by (simp add: init_vbo_def Let_def)
qed

text \<open>
  A position, a normal, a diffuse colour and one set of two texture coordinates:
  36 bytes for the vertex, and a request for 35 bytes is refused.
\<close>

theorem C10_init_vbo_vertex_size_witness:
  "unat (fvf_size (\<lambda>x n. 0) 0x152) = 36
   \<and> init_vbo (\<lambda>x n. 0) 35 0 0x152 D3DPOOL_DEFAULT new_world = Some (False, new_world)"
proof -
  have s: "fvf_size (\<lambda>x n. 0) 0x152 = 36"
    by code_simp
  then have "(35 :: UINT) < fvf_size (\<lambda>x n. 0) 0x152"
    by simp
  with C10_init_vbo_vertex_size[of "\<lambda>x n. 0" "0x152" 35 0 D3DPOOL_DEFAULT new_world] s
  show ?thesis by simp
qed

end
